theory Spec2Isabelle
  imports Complex_Main "HOL-Library.Multiset" "HOL-Library.Sublist" "HOL-Library.List_Lexorder"
    "HOL-Library.Char_ord"
begin

section \<open>The Tesserae baseline of \<open>biblindex/annotations/baseline.py\<close>\<close>

text \<open>
  Tokens are opaque (only equality and set membership are used), so the model is
  polymorphic in the token type; the examples use strings.  Every exception the code can
  raise is a value \<open>Inl e\<close>; a returned value is \<open>Inr v\<close>.

  Frequencies and scores are Python numbers.  \<open>tesserae_score\<close> below computes with
  mathematical reals, that is, without rounding; \<open>tesserae_score_fl\<close> further down is
  the same function with the floating-point operations as parameters.  What is stated on
  \<open>tesserae_score\<close> does not depend on rounding: which exception is raised, which
  branch is taken, the order and the number of the candidates.  Where a score is written
  out there, as \<open>ln (11/6)\<close>, it is the value before rounding.
\<close>

datatype 'a error = KeyError 'a | ValueError | ZeroDivisionError | UnboundLocalError

subsection \<open>Python primitives used by the code\<close>

text \<open>A list comprehension \<open>[f(x) for x in xs]\<close>: left to right, the first exception wins.\<close>

fun map_result :: "('a \<Rightarrow> 'e + 'b) \<Rightarrow> 'a list \<Rightarrow> 'e + 'b list" where
  "map_result f [] = Inr []"
| "map_result f (x # xs) =
     (case f x of
        Inl e \<Rightarrow> Inl e
      | Inr v \<Rightarrow> (case map_result f xs of Inl e \<Rightarrow> Inl e | Inr vs \<Rightarrow> Inr (v # vs)))"

text \<open>\<open>freqs[w]\<close> on a dict.\<close>

definition getitem :: "('a \<rightharpoonup> real) \<Rightarrow> 'a \<Rightarrow> 'a error + real" where
  "getitem freqs w = (case freqs w of None \<Rightarrow> Inl (KeyError w) | Some v \<Rightarrow> Inr v)"

text \<open>\<open>x / y\<close> (true division) and \<open>math.log(x)\<close>.\<close>

definition truediv :: "real \<Rightarrow> real \<Rightarrow> 'a error + real" where
  "truediv x y = (if y = 0 then Inl ZeroDivisionError else Inr (x / y))"

definition math_log :: "real \<Rightarrow> 'a error + real" where
  "math_log x = (if x \<le> 0 then Inl ValueError else Inr (ln x))"

text \<open>\<open>s.index(a)\<close>: the first position of \<open>a\<close>, ValueError when absent.\<close>

fun index :: "'a list \<Rightarrow> 'a \<Rightarrow> 'a error + nat" where
  "index [] a = Inl ValueError"
| "index (x # xs) a =
     (if x = a then Inr 0
      else (case index xs a of Inl e \<Rightarrow> Inl e | Inr i \<Rightarrow> Inr (Suc i)))"

text \<open>
  \<open>sorted(xs, key=key)\<close>: the key of every element is computed first, in order, and the
  sort is stable (\<open>sort_key\<close> is the stable insertion sort).
\<close>

definition sorted_key :: "('a \<Rightarrow> 'e + real) \<Rightarrow> 'a list \<Rightarrow> 'e + 'a list" where
  "sorted_key key xs =
     (case map_result key xs of
        Inl e \<Rightarrow> Inl e
      | Inr ks \<Rightarrow> Inr (map fst (sort_key snd (zip xs ks))))"

text \<open>\<open>xs[:at]\<close> for a Python int \<open>at\<close> (written \<open>at'\<close> here): a negative bound counts from the end.\<close>

definition slice_to :: "int \<Rightarrow> 'b list \<Rightarrow> 'b list" where
  "slice_to at' xs =
     (if 0 \<le> at' then take (nat at') xs else take (length xs - nat (- at')) xs)"

text \<open>
  The iteration order of a Python set depends on the hashes of its elements, so it is a
  parameter \<open>enum\<close> of the model: any function that lists a finite set without
  repetition.
\<close>

definition set_order :: "('a set \<Rightarrow> 'a list) \<Rightarrow> bool" where
  "set_order enum \<longleftrightarrow> (\<forall>A. finite A \<longrightarrow> set (enum A) = A \<and> distinct (enum A))"

text \<open>
  \<open>np.argsort\<close> returns the indices that sort its argument ascending.  Line 83 calls it
  with the default kind, which is not a stable sort: the order it gives to equal elements
  is not specified.  It is therefore a parameter of the model, with the contract
  \<open>argsort_ok\<close>.  Two functions that meet the contract are defined, to run the loop on
  concrete inputs: \<open>stable_argsort\<close> lists equal elements in index order and
  \<open>antistable_argsort\<close> lists them in reverse index order.  Neither is claimed to be
  numpy's.
\<close>

definition argsort_ok :: "(real list \<Rightarrow> nat list) \<Rightarrow> bool" where
  "argsort_ok argsort \<longleftrightarrow>
     (\<forall>xs. mset (argsort xs) = mset [0..<length xs] \<and> sorted (map (\<lambda>i. xs ! i) (argsort xs)))"

definition stable_argsort :: "real list \<Rightarrow> nat list" where
  "stable_argsort xs = sort_key (\<lambda>i. xs ! i) [0..<length xs]"

definition antistable_argsort :: "real list \<Rightarrow> nat list" where
  "antistable_argsort xs = rev (sort_key (\<lambda>i. - (xs ! i)) [0..<length xs])"

subsection \<open>The distance heuristics\<close>

definition get_d_min_freq :: "('a set \<Rightarrow> 'a list) \<Rightarrow> 'a list \<Rightarrow> ('a \<rightharpoonup> real) \<Rightarrow> 'a error + int" where
  "get_d_min_freq enum s freqs =
     (case sorted_key (getitem freqs) (enum (set s)) of
        Inl e \<Rightarrow> Inl e
      | Inr [] \<Rightarrow> Inl ValueError
      | Inr [a] \<Rightarrow> Inl ValueError
      | Inr (a # b # _) \<Rightarrow>
          (case index s a of
             Inl e \<Rightarrow> Inl e
           | Inr i \<Rightarrow> (case index s b of
                        Inl e \<Rightarrow> Inl e
                      | Inr j \<Rightarrow> Inr \<bar>int i - int j\<bar>)))"

definition get_d_max_dist :: "'a list \<Rightarrow> 'a set \<Rightarrow> int" where
  "get_d_max_dist s matching =
     fold (\<lambda>i d. fold (\<lambda>j d. if s ! i \<in> matching \<and> s ! j \<in> matching
                              then max d \<bar>int i - int j\<bar> else d)
                       [i + 1 ..< length s] d)
          [0 ..< length s] 0"

subsection \<open>The pairwise scorer\<close>

definition inv_freq :: "('a \<rightharpoonup> real) \<Rightarrow> 'a \<Rightarrow> 'a error + real" where
  "inv_freq freqs w = (case getitem freqs w of Inl e \<Rightarrow> Inl e | Inr v \<Rightarrow> truediv 1 v)"

definition distances ::
  "('a set \<Rightarrow> 'a list) \<Rightarrow> 'a list \<Rightarrow> 'a list \<Rightarrow> ('a \<rightharpoonup> real) \<Rightarrow> ('a \<rightharpoonup> real) \<Rightarrow> 'a set \<Rightarrow> string
     \<Rightarrow> 'a error + int \<times> int" where
  "distances enum s1 s2 freqs1 freqs2 matching method =
     (if method = ''min_freq'' then
        (case get_d_min_freq enum s1 freqs1 of
           Inl e \<Rightarrow> Inl e
         | Inr d_t \<Rightarrow> (case get_d_min_freq enum s2 freqs2 of
                        Inl e \<Rightarrow> Inl e
                      | Inr d_s \<Rightarrow> Inr (d_t, d_s)))
      else if method = ''max_dist'' then
        Inr (get_d_max_dist s1 matching, get_d_max_dist s2 matching)
      else Inl UnboundLocalError)"

definition tesserae_score ::
  "('a set \<Rightarrow> 'a list) \<Rightarrow> 'a list \<Rightarrow> 'a list \<Rightarrow> ('a \<rightharpoonup> real) \<Rightarrow> ('a \<rightharpoonup> real) \<Rightarrow> string
     \<Rightarrow> 'a error + real" where
  "tesserae_score enum s1 s2 freqs1 freqs2 method =
     (let matching = set s1 \<inter> set s2 in
      if card matching < 2 then Inr 0
      else
        (case map_result (inv_freq freqs1) (enum matching) of
           Inl e \<Rightarrow> Inl e
         | Inr ts \<Rightarrow>
        (case map_result (inv_freq freqs2) (enum matching) of
           Inl e \<Rightarrow> Inl e
         | Inr ss \<Rightarrow>
        (case distances enum s1 s2 freqs1 freqs2 matching method of
           Inl e \<Rightarrow> Inl e
         | Inr (d_t, d_s) \<Rightarrow>
        (case truediv (sum_list ts + sum_list ss) (real_of_int (d_t + d_s)) of
           Inl e \<Rightarrow> Inl e
         | Inr q \<Rightarrow> math_log q)))))"

subsection \<open>The pairwise scorer on floating-point numbers\<close>

text \<open>
  Lines 68 to 75 compute on Python floats: \<open>1 / freqs[w]\<close>, \<open>sum\<close>, \<open>+\<close> and
  \<open>/\<close> round their results, \<open>sum\<close> adds the list in its order, and
  \<open>math.log\<close> is the platform's.  In \<open>tesserae_score_fl\<close> these operations are the
  fields of a parameter \<open>ar\<close>; nothing is assumed of them but what a theorem states
  (\<open>log_sign_ok\<close>: \<open>math.log\<close> is negative exactly below 1).  The tests that decide
  an exception are exact in Python and are kept as they are: a divisor equal to 0, an
  argument of \<open>math.log\<close> that is not positive.  Infinities are not represented.
  \<open>exact\<close> is the arithmetic without rounding.
\<close>

record arith =
  fdiv :: "real \<Rightarrow> real \<Rightarrow> real"
  fadd :: "real \<Rightarrow> real \<Rightarrow> real"
  fsum :: "real list \<Rightarrow> real"
  flog :: "real \<Rightarrow> real"

definition exact :: arith where
  "exact = \<lparr>fdiv = (/), fadd = (+), fsum = sum_list, flog = ln\<rparr>"

definition log_sign_ok :: "arith \<Rightarrow> bool" where
  "log_sign_ok ar \<longleftrightarrow> (\<forall>x. 0 < x \<longrightarrow> (flog ar x < 0 \<longleftrightarrow> x < 1))"

definition fl_truediv :: "arith \<Rightarrow> real \<Rightarrow> real \<Rightarrow> 'a error + real" where
  "fl_truediv ar x y = (if y = 0 then Inl ZeroDivisionError else Inr (fdiv ar x y))"

definition fl_math_log :: "arith \<Rightarrow> real \<Rightarrow> 'a error + real" where
  "fl_math_log ar x = (if x \<le> 0 then Inl ValueError else Inr (flog ar x))"

definition fl_inv_freq :: "arith \<Rightarrow> ('a \<rightharpoonup> real) \<Rightarrow> 'a \<Rightarrow> 'a error + real" where
  "fl_inv_freq ar freqs w =
     (case getitem freqs w of Inl e \<Rightarrow> Inl e | Inr v \<Rightarrow> fl_truediv ar 1 v)"

definition tesserae_score_fl ::
  "arith \<Rightarrow> ('a set \<Rightarrow> 'a list) \<Rightarrow> 'a list \<Rightarrow> 'a list \<Rightarrow> ('a \<rightharpoonup> real) \<Rightarrow> ('a \<rightharpoonup> real)
     \<Rightarrow> string \<Rightarrow> 'a error + real" where
  "tesserae_score_fl ar enum s1 s2 freqs1 freqs2 method =
     (let matching = set s1 \<inter> set s2 in
      if card matching < 2 then Inr 0
      else
        (case map_result (fl_inv_freq ar freqs1) (enum matching) of
           Inl e \<Rightarrow> Inl e
         | Inr ts \<Rightarrow>
        (case map_result (fl_inv_freq ar freqs2) (enum matching) of
           Inl e \<Rightarrow> Inl e
         | Inr ss \<Rightarrow>
        (case distances enum s1 s2 freqs1 freqs2 matching method of
           Inl e \<Rightarrow> Inl e
         | Inr (d_t, d_s) \<Rightarrow>
        (case fl_truediv ar (fadd ar (fsum ar ts) (fsum ar ss)) (real_of_int (d_t + d_s)) of
           Inl e \<Rightarrow> Inl e
         | Inr q \<Rightarrow> fl_math_log ar q)))))"

text \<open>
  The quotient of line 75 as \<open>tesserae_score_fl\<close> computes it when every shared token
  has a weight: \<open>f_t\<close> and \<open>f_s\<close> are the sums of the inverse weights in the
  iteration order of \<open>matching\<close>.
\<close>

definition quotient_fl ::
  "arith \<Rightarrow> ('a set \<Rightarrow> 'a list) \<Rightarrow> 'a list \<Rightarrow> 'a list \<Rightarrow> ('a \<rightharpoonup> real) \<Rightarrow> ('a \<rightharpoonup> real)
     \<Rightarrow> int \<Rightarrow> int \<Rightarrow> real" where
  "quotient_fl ar enum s1 s2 freqs1 freqs2 d_t d_s =
     (let ws = enum (set s1 \<inter> set s2);
          f_t = fsum ar (map (\<lambda>w. fdiv ar 1 (the (freqs1 w))) ws);
          f_s = fsum ar (map (\<lambda>w. fdiv ar 1 (the (freqs2 w))) ws)
      in fdiv ar (fadd ar f_t f_s) (real_of_int (d_t + d_s)))"

subsection \<open>The candidate ranker and the evaluation loop\<close>

text \<open>
  One round of the loop of \<open>tesserae_baseline\<close>, for the source segment \<open>s1\<close> at position
  \<open>idx\<close>: the scores of all candidates, the reversed argsort cut to \<open>at\<close>, the filter on
  positive scores, the output triples and the hit.  The call of \<open>tesserae_score\<close> passes
  no method, so the default \<open>'min_freq'\<close> is used.
\<close>

definition select_idxs :: "(real list \<Rightarrow> nat list) \<Rightarrow> int \<Rightarrow> real list \<Rightarrow> nat list" where
  "select_idxs argsort at' tscores =
     filter (\<lambda>i. tscores ! i > 0) (slice_to at' (rev (argsort tscores)))"

definition baseline_round ::
  "('a set \<Rightarrow> 'a list) \<Rightarrow> (real list \<Rightarrow> nat list) \<Rightarrow> 'a list list \<Rightarrow> ('a \<rightharpoonup> real) \<Rightarrow> ('a \<rightharpoonup> real)
     \<Rightarrow> int \<Rightarrow> nat \<times> 'a list \<Rightarrow> 'a error + (nat \<times> (nat \<times> real \<times> nat) list)" where
  "baseline_round enum argsort trg src_freqs trg_freqs at' p =
     (case p of (idx, s1) \<Rightarrow>
        (case map_result (\<lambda>s2. tesserae_score enum s1 s2 src_freqs trg_freqs ''min_freq'') trg of
           Inl e \<Rightarrow> Inl e
         | Inr tscores \<Rightarrow>
             (let idxs = select_idxs argsort at' tscores
              in Inr (if idx \<in> set idxs then 1 else 0,
                      map (\<lambda>i. (i, tscores ! i, card (set s1 \<inter> set (trg ! i)))) idxs))))"

definition tesserae_baseline ::
  "('a set \<Rightarrow> 'a list) \<Rightarrow> (real list \<Rightarrow> nat list) \<Rightarrow> 'a list list \<Rightarrow> 'a list list
     \<Rightarrow> ('a \<rightharpoonup> real) \<Rightarrow> ('a \<rightharpoonup> real) \<Rightarrow> int \<Rightarrow> string
     \<Rightarrow> 'a error + (real \<times> (nat \<times> real \<times> nat) list list)" where
  "tesserae_baseline enum argsort src trg src_freqs trg_freqs at' method =
     (case map_result (baseline_round enum argsort trg src_freqs trg_freqs at')
                      (zip [0 ..< length src] src) of
        Inl e \<Rightarrow> Inl e
      | Inr rounds \<Rightarrow>
          (let scores = map fst rounds; output = map snd rounds
           in (case truediv (real (sum_list scores)) (real (length scores)) of
                 Inl e \<Rightarrow> Inl e
               | Inr recall \<Rightarrow> Inr (recall, output))))"

subsection \<open>Example data\<close>

text \<open>The frequency map of the specification's \<open>min_freq\<close> example.\<close>

definition spec_freqs :: "string \<rightharpoonup> real" where
  "spec_freqs = [''a'' \<mapsto> 1, ''b'' \<mapsto> 5, ''c'' \<mapsto> 10]"

text \<open>Frequency maps used to run the scorer and the loop on concrete segments.\<close>

definition freqs_ab :: "string \<rightharpoonup> real" where
  "freqs_ab = [''a'' \<mapsto> 10, ''b'' \<mapsto> 20]"

definition freqs_abc :: "string \<rightharpoonup> real" where
  "freqs_abc = [''a'' \<mapsto> 1, ''b'' \<mapsto> 2, ''c'' \<mapsto> 3]"

section \<open>Properties\<close>

lemma set_order_sorted_list_of_set: "set_order (sorted_list_of_set :: ('a::linorder) set \<Rightarrow> 'a list)"
  by (simp add: set_order_def)

subsection \<open>Comprehensions, lookups and sorting\<close>

text \<open>
  C8: when the two segments share fewer than two distinct tokens, \<open>tesserae_score\<close>
  returns exactly 0, whatever the frequency maps and the method.
\<close>

theorem tesserae_score_few_shared:
  "card (set s1 \<inter> set s2) < 2 \<Longrightarrow> tesserae_score enum s1 s2 freqs1 freqs2 method = Inr 0"
  by (simp add: tesserae_score_def)

theorem tesserae_score_few_shared_witness:
  "card (set [''a'', ''b''] \<inter> set [''b'', ''c'']) < 2 \<and>
   tesserae_score sorted_list_of_set [''a'', ''b''] [''b'', ''c''] Map.empty Map.empty ''max_dist'' = Inr 0"
proof -
  have h: "card (set [''a'', ''b''] \<inter> set [''b'', ''c'']) < 2" by simp
  show ?thesis using h tesserae_score_few_shared [OF h] by blast
qed

lemma map_result_Inr_imp: "map_result f xs = Inr vs \<Longrightarrow> map f xs = map Inr vs"
  by (induction xs arbitrary: vs) (auto split: sum.splits)

lemma map_result_Inr_conv: "map f xs = map Inr vs \<Longrightarrow> map_result f xs = Inr vs"
  by (induction xs arbitrary: vs) (auto split: sum.splits)

lemma map_result_Inr_iff: "map_result f xs = Inr vs \<longleftrightarrow> map f xs = map Inr vs"
  using map_result_Inr_imp map_result_Inr_conv by blast

lemma map_result_Inr_length: "map_result f xs = Inr vs \<Longrightarrow> length vs = length xs"
  by (induction xs arbitrary: vs) (auto split: sum.splits)

lemma map_result_Inl: "map_result f xs = Inl e \<Longrightarrow> \<exists>x\<in>set xs. f x = Inl e"
  by (induction xs) (auto split: sum.splits)

lemma map_result_Inr_nth:
  "map_result f xs = Inr vs \<Longrightarrow> i < length xs \<Longrightarrow> f (xs ! i) = Inr (vs ! i)"
  by (induction xs arbitrary: vs i) (auto split: sum.splits simp: nth_Cons')

lemma map_result_total:
  "(\<And>x. x \<in> set xs \<Longrightarrow> f x = Inr (g x)) \<Longrightarrow> map_result f xs = Inr (map g xs)"
  by (induction xs) auto

lemma map_result_Inr_map:
  "map_result f xs = Inr vs \<Longrightarrow> (\<forall>x\<in>set xs. \<exists>v. f x = Inr v) \<and> vs = map (\<lambda>x. projr (f x)) xs"
  by (induction xs arbitrary: vs) (auto split: sum.splits)

lemma inv_freq_Inr_iff:
  "inv_freq freqs w = Inr v \<longleftrightarrow> (\<exists>u. freqs w = Some u \<and> u \<noteq> 0 \<and> v = 1 / u)"
  by (auto simp: inv_freq_def getitem_def truediv_def split: option.splits)

lemma inv_freq_Inl_iff:
  "inv_freq freqs w = Inl e \<longleftrightarrow>
     (freqs w = None \<and> e = KeyError w) \<or> (freqs w = Some 0 \<and> e = ZeroDivisionError)"
  by (auto simp: inv_freq_def getitem_def truediv_def split: option.splits)

lemma index_Inr: "index s a = Inr i \<Longrightarrow> i < length s \<and> s ! i = a"
  by (induction s arbitrary: i) (auto split: if_splits sum.splits)

lemma index_mem: "a \<in> set s \<Longrightarrow> \<exists>i. index s a = Inr i"
  by (induction s) auto

lemma index_Inl: "index s a = Inl e \<Longrightarrow> e = ValueError \<and> a \<notin> set s"
  by (induction s) (auto split: if_splits sum.splits)

lemma sorted_key_Inr_mset:
  "sorted_key key xs = Inr ys \<Longrightarrow> mset ys = mset xs"
proof -
  assume a: "sorted_key key xs = Inr ys"
  then obtain ks where ks: "map_result key xs = Inr ks" and ys: "ys = map fst (sort_key snd (zip xs ks))"
    by (auto simp: sorted_key_def split: sum.splits)
  have "length ks = length xs" using ks by (rule map_result_Inr_length)
  then have "mset (map fst (zip xs ks)) = mset xs" by simp
  moreover have "mset ys = mset (map fst (zip xs ks))" unfolding ys by (simp only: mset_map mset_sort)
  ultimately show ?thesis by simp
qed

lemma sorted_key_Inl: "sorted_key key xs = Inl e \<Longrightarrow> \<exists>x\<in>set xs. key x = Inl e"
  by (auto simp: sorted_key_def split: sum.splits dest: map_result_Inl)

lemma sorted_key_total:
  "(\<And>x. x \<in> set xs \<Longrightarrow> \<exists>v. key x = Inr v) \<Longrightarrow> \<exists>ys. sorted_key key xs = Inr ys"
proof (cases "map_result key xs")
  case (Inl e)
  assume "\<And>x. x \<in> set xs \<Longrightarrow> \<exists>v. key x = Inr v"
  with map_result_Inl[OF Inl] show ?thesis by fastforce
next
  case (Inr ks)
  then show ?thesis by (simp add: sorted_key_def)
qed

subsection \<open>The min_freq distance\<close>

lemma set_orderD: "set_order enum \<Longrightarrow> finite A \<Longrightarrow> set (enum A) = A \<and> distinct (enum A)"
  by (simp add: set_order_def)

lemma inv_freq_map:
  "map_result (inv_freq freqs) xs = Inr vs \<Longrightarrow> vs = map (\<lambda>w. 1 / the (freqs w)) xs"
  by (induction xs arbitrary: vs) (auto split: sum.splits simp: inv_freq_Inr_iff)

lemma inv_freq_sum:
  assumes "set_order enum" and "map_result (inv_freq freqs) (enum (set s1 \<inter> set s2)) = Inr vs"
  shows "sum_list vs = (\<Sum>w\<in>set s1 \<inter> set s2. 1 / the (freqs w))"
proof -
  let ?A = "set s1 \<inter> set s2"
  have e: "set (enum ?A) = ?A" "distinct (enum ?A)"
    using set_orderD[OF assms(1), of ?A] by simp_all
  have "vs = map (\<lambda>w. 1 / the (freqs w)) (enum ?A)"
    using assms(2) by (rule inv_freq_map)
  then show ?thesis
    using e by (simp add: sum_list_distinct_conv_sum_set)
qed

lemma get_d_min_freq_Inr:
  assumes "get_d_min_freq enum s freqs = Inr d"
  obtains a b rest i j where "sorted_key (getitem freqs) (enum (set s)) = Inr (a # b # rest)"
    and "index s a = Inr i" and "index s b = Inr j" and "d = \<bar>int i - int j\<bar>"
  using assms unfolding get_d_min_freq_def
  by (auto split: sum.splits list.splits)

lemma get_d_min_freq_ge1:
  assumes "set_order enum" and "get_d_min_freq enum s freqs = Inr d"
  shows "1 \<le> d"
proof -
  from assms(2) obtain a b rest i j where
    sk: "sorted_key (getitem freqs) (enum (set s)) = Inr (a # b # rest)"
    and ia: "index s a = Inr i" and ib: "index s b = Inr j" and d: "d = \<bar>int i - int j\<bar>"
    by (rule get_d_min_freq_Inr)
  have "mset (a # b # rest) = mset (enum (set s))" using sk by (rule sorted_key_Inr_mset)
  moreover have "distinct (enum (set s))" using set_orderD[OF assms(1), of "set s"] by simp
  ultimately have "distinct (a # b # rest)" by (metis mset_eq_imp_distinct_iff)
  then have "a \<noteq> b" by simp
  with index_Inr[OF ia] index_Inr[OF ib] have "i \<noteq> j" by auto
  then show ?thesis unfolding d by linarith
qed

lemma getitem_Inr_iff: "getitem freqs w = Inr v \<longleftrightarrow> freqs w = Some v"
  by (simp add: getitem_def split: option.splits)

lemma getitem_Inl_iff: "getitem freqs w = Inl e \<longleftrightarrow> freqs w = None \<and> e = KeyError w"
  by (auto simp add: getitem_def split: option.splits)

lemma get_d_min_freq_total:
  assumes "set_order enum" and "\<forall>w\<in>set s. freqs w \<noteq> None" and "2 \<le> card (set s)"
  shows "\<exists>d. get_d_min_freq enum s freqs = Inr d"
proof -
  have e: "set (enum (set s)) = set s" "distinct (enum (set s))"
    using set_orderD[OF assms(1), of "set s"] by simp_all
  have "\<exists>ys. sorted_key (getitem freqs) (enum (set s)) = Inr ys"
    by (rule sorted_key_total) (use assms(2) e in \<open>auto simp: getitem_Inr_iff\<close>)
  then obtain ys where ys: "sorted_key (getitem freqs) (enum (set s)) = Inr ys" ..
  have m: "mset ys = mset (enum (set s))" using ys by (rule sorted_key_Inr_mset)
  then have "length ys = length (enum (set s))" by (metis size_mset)
  also have "\<dots> = card (set s)" using e by (metis distinct_card)
  finally have "2 \<le> length ys" using assms(3) by simp
  then obtain a b rest where abr: "ys = a # b # rest"
    by (cases ys; cases "tl ys") auto
  have "set ys = set s" using m e by (metis set_mset_mset)
  then have "a \<in> set s" "b \<in> set s" unfolding abr by auto
  then obtain i j where "index s a = Inr i" "index s b = Inr j"
    using index_mem by metis
  then show ?thesis using ys abr by (simp add: get_d_min_freq_def)
qed

lemma get_d_min_freq_Inl:
  assumes "set_order enum" and "get_d_min_freq enum s freqs = Inl e"
  shows "(\<exists>w\<in>set s. freqs w = None \<and> e = KeyError w) \<or> (card (set s) < 2 \<and> e = ValueError)"
proof (cases "sorted_key (getitem freqs) (enum (set s))")
  case (Inl e')
  then have "e' = e" using assms(2) by (simp add: get_d_min_freq_def)
  moreover have "set (enum (set s)) = set s" using set_orderD[OF assms(1), of "set s"] by simp
  ultimately show ?thesis using sorted_key_Inl[OF Inl] by (auto simp: getitem_Inl_iff)
next
  case (Inr ys)
  have e: "set (enum (set s)) = set s" "distinct (enum (set s))"
    using set_orderD[OF assms(1), of "set s"] by simp_all
  have m: "mset ys = mset (enum (set s))" using Inr by (rule sorted_key_Inr_mset)
  then have "length ys = length (enum (set s))" by (metis size_mset)
  also have "\<dots> = card (set s)" using e by (metis distinct_card)
  finally have len: "length ys = card (set s)" .
  have sub: "set ys = set s" using m e by (metis set_mset_mset)
  show ?thesis
  proof (cases "length ys < 2")
    case True
    then have "ys = [] \<or> (\<exists>a. ys = [a])" by (cases ys; cases "tl ys") auto
    then have "e = ValueError" using assms(2) Inr by (auto simp: get_d_min_freq_def)
    then show ?thesis using True len by simp
  next
    case False
    then obtain a b rest where abr: "ys = a # b # rest"
      by (cases ys; cases "tl ys") auto
    then have "a \<in> set s" "b \<in> set s" using sub by auto
    then obtain i j where "index s a = Inr i" "index s b = Inr j"
      using index_mem by metis
    then show ?thesis using assms(2) Inr abr by (simp add: get_d_min_freq_def)
  qed
qed

subsection \<open>The max_dist distance\<close>

lemma fold_max_ge_init:
  "(d::int) \<le> fold (\<lambda>j d. if P j then max d (g j) else d) js d"
proof (induction js arbitrary: d)
  case Nil
  show ?case by simp
next
  case (Cons j js)
  have "d \<le> (if P j then max d (g j) else d)" by simp
  also have "\<dots> \<le> fold (\<lambda>j d. if P j then max d (g j) else d) js (if P j then max d (g j) else d)"
    by (rule Cons.IH)
  finally show ?case by simp
qed

lemma fold_max_ge_elem:
  "j \<in> set js \<Longrightarrow> P j \<Longrightarrow> g j \<le> fold (\<lambda>j d. if P j then max d (g j) else d) js (d::int)"
proof (induction js arbitrary: d)
  case Nil
  then show ?case by simp
next
  case (Cons k js)
  show ?case
  proof (cases "j = k")
    case True
    have "g j \<le> max d (g j)" by simp
    also have "\<dots> \<le> fold (\<lambda>j d. if P j then max d (g j) else d) js (max d (g j))"
      by (rule fold_max_ge_init)
    finally show ?thesis using True Cons.prems by simp
  next
    case False
    then have "j \<in> set js" using Cons.prems by simp
    from Cons.IH[OF this Cons.prems(2)] show ?thesis by simp
  qed
qed

lemma fold_outer_ge_init:
  "(\<And>i d. d \<le> G i d) \<Longrightarrow> (d::int) \<le> fold G is d"
proof (induction "is" arbitrary: d)
  case Nil
  show ?case by simp
next
  case (Cons i "is")
  have "d \<le> G i d" by (rule Cons.prems)
  also have "\<dots> \<le> fold G is (G i d)" by (rule Cons.IH) (rule Cons.prems)
  finally show ?case by simp
qed

lemma fold_outer_ge_elem:
  "(\<And>i d. d \<le> G i d) \<Longrightarrow> i \<in> set is \<Longrightarrow> (\<And>d. x \<le> G i d) \<Longrightarrow> (x::int) \<le> fold G is d"
proof (induction "is" arbitrary: d)
  case Nil
  then show ?case by simp
next
  case (Cons k "is")
  show ?case
  proof (cases "i = k")
    case True
    have "x \<le> G k d" using Cons.prems(3) True by simp
    also have "\<dots> \<le> fold G is (G k d)" by (rule fold_outer_ge_init) (rule Cons.prems(1))
    finally show ?thesis by simp
  next
    case False
    then have "i \<in> set is" using Cons.prems(2) by simp
    then have "x \<le> fold G is (G k d)" by (rule Cons.IH[OF Cons.prems(1) _ Cons.prems(3)])
    then show ?thesis by simp
  qed
qed

lemma get_d_max_dist_nonneg: "0 \<le> get_d_max_dist s matching"
  unfolding get_d_max_dist_def
  by (rule fold_outer_ge_init) (rule fold_max_ge_init)

lemma get_d_max_dist_ge_pair:
  assumes "i < j" and "j < length s" and "s ! i \<in> matching" and "s ! j \<in> matching"
  shows "int j - int i \<le> get_d_max_dist s matching"
  unfolding get_d_max_dist_def
proof (rule fold_outer_ge_elem[where i = i])
  show "i \<in> set [0..<length s]" using assms by simp
next
  fix i' d
  show "d \<le> fold (\<lambda>j d. if s ! i' \<in> matching \<and> s ! j \<in> matching then max d \<bar>int i' - int j\<bar> else d)
                 [i' + 1..<length s] d"
    by (rule fold_max_ge_init)
next
  fix d
  have "\<bar>int i - int j\<bar> \<le> fold (\<lambda>j d. if s ! i \<in> matching \<and> s ! j \<in> matching then max d \<bar>int i - int j\<bar> else d)
                 [i + 1..<length s] d"
    by (rule fold_max_ge_elem) (use assms in auto)
  then show "int j - int i \<le> fold (\<lambda>j d. if s ! i \<in> matching \<and> s ! j \<in> matching then max d \<bar>int i - int j\<bar> else d)
                 [i + 1..<length s] d"
    using assms(1) by linarith
qed

lemma two_positions:
  assumes "2 \<le> card (set s \<inter> M)"
  shows "\<exists>i j. i < j \<and> j < length s \<and> s ! i \<in> M \<and> s ! j \<in> M"
proof -
  have "finite (set s \<inter> M)" by simp
  obtain a b where ab: "a \<in> set s \<inter> M" "b \<in> set s \<inter> M" "a \<noteq> b"
    using assms by (metis card_le_Suc0_iff_eq \<open>finite (set s \<inter> M)\<close> not_less_eq_eq numeral_2_eq_2)
  then obtain i j where "i < length s" "s ! i = a" "j < length s" "s ! j = b"
    by (metis IntD1 in_set_conv_nth)
  with ab have "i \<noteq> j" "s ! i \<in> M" "s ! j \<in> M" by auto
  then show ?thesis
    using \<open>i < length s\<close> \<open>j < length s\<close> by (metis nat_neq_iff)
qed

lemma get_d_max_dist_ge1:
  assumes "2 \<le> card (set s \<inter> M)"
  shows "1 \<le> get_d_max_dist s M"
proof -
  from two_positions[OF assms] obtain i j where
    ij: "i < j" "j < length s" "s ! i \<in> M" "s ! j \<in> M" by blast
  from get_d_max_dist_ge_pair[OF ij] ij(1) show ?thesis by linarith
qed

subsection \<open>Distances of segments that share two tokens\<close>

lemma distances_ge1:
  assumes "set_order enum" and "2 \<le> card (set s1 \<inter> set s2)"
    and "distances enum s1 s2 freqs1 freqs2 (set s1 \<inter> set s2) method = Inr (d_t, d_s)"
  shows "1 \<le> d_t \<and> 1 \<le> d_s"
proof (cases "method = ''min_freq''")
  case True
  with assms(3) have "get_d_min_freq enum s1 freqs1 = Inr d_t" "get_d_min_freq enum s2 freqs2 = Inr d_s"
    by (auto simp: distances_def split: sum.splits)
  then show ?thesis using get_d_min_freq_ge1[OF assms(1)] by blast
next
  case False
  with assms(3) have d: "d_t = get_d_max_dist s1 (set s1 \<inter> set s2)" "d_s = get_d_max_dist s2 (set s1 \<inter> set s2)"
    by (auto simp: distances_def split: if_splits)
  have "set s1 \<inter> (set s1 \<inter> set s2) = set s1 \<inter> set s2" "set s2 \<inter> (set s1 \<inter> set s2) = set s1 \<inter> set s2"
    by auto
  then have "2 \<le> card (set s1 \<inter> (set s1 \<inter> set s2))" "2 \<le> card (set s2 \<inter> (set s1 \<inter> set s2))"
    using assms(2) by simp_all
  then show ?thesis unfolding d by (simp add: get_d_max_dist_ge1)
qed

lemma distances_Inl:
  assumes "set_order enum" and "2 \<le> card (set s1 \<inter> set s2)"
    and "distances enum s1 s2 freqs1 freqs2 matching method = Inl e"
  shows "(\<exists>w\<in>set s1. freqs1 w = None \<and> e = KeyError w) \<or> (\<exists>w\<in>set s2. freqs2 w = None \<and> e = KeyError w)
         \<or> (method \<noteq> ''min_freq'' \<and> method \<noteq> ''max_dist'' \<and> e = UnboundLocalError)"
proof -
  have c: "2 \<le> card (set s1)" "2 \<le> card (set s2)"
    using assms(2) card_mono[of "set s1" "set s1 \<inter> set s2"] card_mono[of "set s2" "set s1 \<inter> set s2"]
    by auto
  show ?thesis
  proof (cases "method = ''min_freq''")
    case True
    with assms(3) have "get_d_min_freq enum s1 freqs1 = Inl e \<or> get_d_min_freq enum s2 freqs2 = Inl e"
      by (auto simp: distances_def split: sum.splits)
    then show ?thesis using get_d_min_freq_Inl[OF assms(1)] c by fastforce
  next
    case False
    with assms(3) show ?thesis by (auto simp: distances_def split: if_splits)
  qed
qed

text \<open>
  C5: for segments sharing at least two tokens and frequency maps without a zero
  weight, \<open>tesserae_score\<close> never raises a division error, with either method (and
  with any other method string).  The code has no guard for \<open>d_t + d_s = 0\<close>: the case
  cannot arise, since both distances are at least 1 as soon as two tokens are shared.
\<close>

theorem tesserae_score_no_division_error:
  assumes "set_order enum" and "2 \<le> card (set s1 \<inter> set s2)"
    and "\<forall>w. freqs1 w \<noteq> Some 0" and "\<forall>w. freqs2 w \<noteq> Some 0"
  shows "tesserae_score enum s1 s2 freqs1 freqs2 method \<noteq> Inl ZeroDivisionError \<and>
         (\<forall>d_t d_s. distances enum s1 s2 freqs1 freqs2 (set s1 \<inter> set s2) method = Inr (d_t, d_s)
            \<longrightarrow> d_t + d_s \<noteq> 0)"
proof
  show "\<forall>d_t d_s. distances enum s1 s2 freqs1 freqs2 (set s1 \<inter> set s2) method = Inr (d_t, d_s)
            \<longrightarrow> d_t + d_s \<noteq> 0"
    using distances_ge1[OF assms(1,2)] by fastforce
  show "tesserae_score enum s1 s2 freqs1 freqs2 method \<noteq> Inl ZeroDivisionError"
  proof
    assume a: "tesserae_score enum s1 s2 freqs1 freqs2 method = Inl ZeroDivisionError"
    let ?M = "set s1 \<inter> set s2"
    have nz: "inv_freq freqs1 w \<noteq> Inl ZeroDivisionError" "inv_freq freqs2 w \<noteq> Inl ZeroDivisionError" for w
      using assms(3,4) by (auto simp: inv_freq_Inl_iff)
    from a assms(2) obtain ts where ts: "map_result (inv_freq freqs1) (enum ?M) = Inr ts"
      by (cases "map_result (inv_freq freqs1) (enum ?M)")
         (auto simp: tesserae_score_def Let_def dest!: map_result_Inl simp: nz)
    from a assms(2) ts obtain ss where ss: "map_result (inv_freq freqs2) (enum ?M) = Inr ss"
      by (cases "map_result (inv_freq freqs2) (enum ?M)")
         (auto simp: tesserae_score_def Let_def dest!: map_result_Inl simp: nz)
    from a assms(2) ts ss obtain d_t d_s where d: "distances enum s1 s2 freqs1 freqs2 ?M method = Inr (d_t, d_s)"
      by (cases "distances enum s1 s2 freqs1 freqs2 ?M method")
         (auto simp: tesserae_score_def Let_def dest!: distances_Inl[OF assms(1,2)])
    have "d_t + d_s \<noteq> 0" using distances_ge1[OF assms(1,2) d] by linarith
    with a assms(2) ts ss d show False
      by (auto simp: tesserae_score_def Let_def truediv_def math_log_def split: if_splits)
  qed
qed

subsection \<open>The shape of a returned score\<close>

lemma tesserae_score_eq:
  assumes "2 \<le> card (set s1 \<inter> set s2)"
      and "map_result (inv_freq freqs1) (enum (set s1 \<inter> set s2)) = Inr ts"
      and "map_result (inv_freq freqs2) (enum (set s1 \<inter> set s2)) = Inr ss"
      and "distances enum s1 s2 freqs1 freqs2 (set s1 \<inter> set s2) method = Inr (d_t, d_s)"
      and "d_t + d_s \<noteq> 0" and "0 < (sum_list ts + sum_list ss) / real_of_int (d_t + d_s)"
  shows "tesserae_score enum s1 s2 freqs1 freqs2 method
           = Inr (ln ((sum_list ts + sum_list ss) / real_of_int (d_t + d_s)))"
proof -
  have "\<not> card (set s1 \<inter> set s2) < 2" using assms(1) by simp
  moreover have "real_of_int (d_t + d_s) \<noteq> 0" using assms(5) by simp
  moreover have "\<not> (sum_list ts + sum_list ss) / real_of_int (d_t + d_s) \<le> 0" using assms(6) by simp
  ultimately show ?thesis
    unfolding tesserae_score_def Let_def truediv_def math_log_def
    by (simp only: assms(2,3,4) sum.case prod.case if_False)
qed

lemma tesserae_score_Inr_cases:
  assumes "tesserae_score enum s1 s2 freqs1 freqs2 method = Inr v"
  obtains "card (set s1 \<inter> set s2) < 2" and "v = 0"
  | ts ss d_t d_s where "2 \<le> card (set s1 \<inter> set s2)"
      and "map_result (inv_freq freqs1) (enum (set s1 \<inter> set s2)) = Inr ts"
      and "map_result (inv_freq freqs2) (enum (set s1 \<inter> set s2)) = Inr ss"
      and "distances enum s1 s2 freqs1 freqs2 (set s1 \<inter> set s2) method = Inr (d_t, d_s)"
      and "d_t + d_s \<noteq> 0" and "0 < (sum_list ts + sum_list ss) / real_of_int (d_t + d_s)"
      and "v = ln ((sum_list ts + sum_list ss) / real_of_int (d_t + d_s))"
proof (cases "card (set s1 \<inter> set s2) < 2")
  case True
  then have "v = 0" using assms by (simp add: tesserae_score_def)
  with True that(1) show ?thesis by blast
next
  case False
  let ?M = "set s1 \<inter> set s2"
  from False assms obtain ts where ts: "map_result (inv_freq freqs1) (enum ?M) = Inr ts"
    by (cases "map_result (inv_freq freqs1) (enum ?M)") (simp_all add: tesserae_score_def)
  from False assms ts obtain ss where ss: "map_result (inv_freq freqs2) (enum ?M) = Inr ss"
    by (cases "map_result (inv_freq freqs2) (enum ?M)") (simp_all add: tesserae_score_def)
  from False assms ts ss obtain d where d: "distances enum s1 s2 freqs1 freqs2 ?M method = Inr d"
    by (cases "distances enum s1 s2 freqs1 freqs2 ?M method") (simp_all add: tesserae_score_def)
  obtain d_t d_s where dd: "d = (d_t, d_s)" by (cases d)
  have r: "(case truediv (sum_list ts + sum_list ss) (real_of_int (d_t + d_s)) of
           Inl e \<Rightarrow> Inl e
         | Inr q \<Rightarrow> math_log q) = (Inr v :: 'a error + real)"
    using False assms ts ss d dd by (simp add: tesserae_score_def)
  have nz: "d_t + d_s \<noteq> 0" using r by (auto simp: truediv_def split: if_splits)
  then have r2: "math_log ((sum_list ts + sum_list ss) / real_of_int (d_t + d_s)) = (Inr v :: 'a error + real)"
    using r by (simp add: truediv_def)
  then have pos: "0 < (sum_list ts + sum_list ss) / real_of_int (d_t + d_s)"
    and v: "v = ln ((sum_list ts + sum_list ss) / real_of_int (d_t + d_s))"
    by (auto simp: math_log_def split: if_splits)
  from False have "2 \<le> card ?M" by simp
  from that(2)[OF this ts ss d[unfolded dd] nz pos v] show ?thesis .
qed

lemma distances_swap:
  "distances enum s1 s2 freqs1 freqs2 matching method = Inr (a, b)
   \<Longrightarrow> distances enum s2 s1 freqs2 freqs1 matching method = Inr (b, a)"
  by (auto simp: distances_def split: if_splits sum.splits)

text \<open>
  Without rounding, swapping both segments and both frequency maps gives the same score.
  This says nothing of the program's floats: the two calls add the inverse weights in the
  iteration orders of two different set objects, and the rounded sums can differ.
\<close>

lemma score_swap_exact:
  assumes "tesserae_score enum s1 s2 freqs1 freqs2 method = Inr v"
  shows "tesserae_score enum s2 s1 freqs2 freqs1 method = Inr v"
  using assms
proof (cases rule: tesserae_score_Inr_cases)
  case 1
  then show ?thesis by (simp add: tesserae_score_def Int_commute)
next
  case (2 ts ss d_t d_s)
  have c: "set s2 \<inter> set s1 = set s1 \<inter> set s2" by (rule Int_commute)
  have d: "d_s + d_t = d_t + d_s" and s: "sum_list ss + sum_list ts = sum_list ts + sum_list ss"
    by simp_all
  have "tesserae_score enum s2 s1 freqs2 freqs1 method
           = Inr (ln ((sum_list ss + sum_list ts) / real_of_int (d_s + d_t)))"
  proof (rule tesserae_score_eq)
    show "2 \<le> card (set s2 \<inter> set s1)" using 2(1) by (simp only: c)
    show "map_result (inv_freq freqs2) (enum (set s2 \<inter> set s1)) = Inr ss" using 2(3) by (simp only: c)
    show "map_result (inv_freq freqs1) (enum (set s2 \<inter> set s1)) = Inr ts" using 2(2) by (simp only: c)
    show "distances enum s2 s1 freqs2 freqs1 (set s2 \<inter> set s1) method = Inr (d_s, d_t)"
      using distances_swap[OF 2(4)] by (simp only: c)
    show "d_s + d_t \<noteq> 0" using 2(5) by linarith
    show "0 < (sum_list ss + sum_list ts) / real_of_int (d_s + d_t)" using 2(6) by (simp add: add.commute)
  qed
  then show ?thesis using 2(7) by (simp add: add.commute)
qed

text \<open>
  C10: when the segments share at least two tokens and a shared token is absent from one
  of the two frequency maps, \<open>tesserae_score\<close> raises instead of returning a score;
  when no weight is zero the exception is the \<open>KeyError\<close> of a shared token that one
  of the maps lacks.
\<close>

theorem tesserae_score_missing_token:
  assumes "set_order enum" and "2 \<le> card (set s1 \<inter> set s2)" and "w \<in> set s1 \<inter> set s2"
    and "freqs1 w = None \<or> freqs2 w = None"
  shows "\<exists>e. tesserae_score enum s1 s2 freqs1 freqs2 method = Inl e \<and>
           ((\<forall>u. freqs1 u \<noteq> Some 0) \<and> (\<forall>u. freqs2 u \<noteq> Some 0) \<longrightarrow>
              (\<exists>w'\<in>set s1 \<inter> set s2. (freqs1 w' = None \<or> freqs2 w' = None) \<and> e = KeyError w'))"
proof -
  let ?M = "set s1 \<inter> set s2"
  have e: "set (enum ?M) = ?M" using set_orderD[OF assms(1), of ?M] by simp
  have nlt: "\<not> card ?M < 2" using assms(2) by simp
  have key: "\<exists>w'\<in>?M. (freqs1 w' = None \<or> freqs2 w' = None) \<and> err = KeyError w'"
    if "x \<in> ?M" and "inv_freq freqs1 x = Inl err \<or> inv_freq freqs2 x = Inl err"
      and "(\<forall>u. freqs1 u \<noteq> Some 0) \<and> (\<forall>u. freqs2 u \<noteq> Some 0)" for x err
    using that unfolding inv_freq_Inl_iff by blast
  show ?thesis
  proof (cases "map_result (inv_freq freqs1) (enum ?M)")
    case (Inl err)
    then have r: "tesserae_score enum s1 s2 freqs1 freqs2 method = Inl err"
      using nlt by (simp add: tesserae_score_def)
    from map_result_Inl[OF Inl] e obtain x where "x \<in> ?M" "inv_freq freqs1 x = Inl err" by auto
    then show ?thesis using r key by blast
  next
    case (Inr ts)
    have "\<exists>v. inv_freq freqs1 w = Inr v"
      using map_result_Inr_map[OF Inr] e assms(3) by blast
    then have n2: "freqs2 w = None" using assms(4) by (auto simp: inv_freq_Inr_iff)
    show ?thesis
    proof (cases "map_result (inv_freq freqs2) (enum ?M)")
      case (Inl err)
      then have r: "tesserae_score enum s1 s2 freqs1 freqs2 method = Inl err"
        using nlt Inr by (simp add: tesserae_score_def)
      from map_result_Inl[OF Inl] e obtain x where "x \<in> ?M" "inv_freq freqs2 x = Inl err" by auto
      then show ?thesis using r key by blast
    next
      case (Inr ss)
      have "\<exists>v. inv_freq freqs2 w = Inr v"
        using map_result_Inr_map[OF Inr] e assms(3) by blast
      then show ?thesis using n2 by (auto simp: inv_freq_Inr_iff)
    qed
  qed
qed

theorem tesserae_score_no_division_error_witness:
  "set_order (sorted_list_of_set :: string set \<Rightarrow> string list) \<and>
   2 \<le> card (set [''a'', ''b''] \<inter> set [''b'', ''a'']) \<and>
   (\<forall>w. [''a'' \<mapsto> 2, ''b'' \<mapsto> 3] w \<noteq> Some (0::real)) \<and>
   tesserae_score sorted_list_of_set [''a'', ''b''] [''b'', ''a'']
      [''a'' \<mapsto> 2, ''b'' \<mapsto> 3] [''a'' \<mapsto> 2, ''b'' \<mapsto> 3] ''max_dist'' \<noteq> Inl ZeroDivisionError"
proof -
  have h1: "set_order (sorted_list_of_set :: string set \<Rightarrow> string list)"
    by (rule set_order_sorted_list_of_set)
  have h2: "2 \<le> card (set [''a'', ''b''] \<inter> set [''b'', ''a''])" by simp
  have h3: "\<forall>w. [''a'' \<mapsto> 2, ''b'' \<mapsto> 3] w \<noteq> Some (0::real)" by simp
  show ?thesis
    using h1 h2 h3 tesserae_score_no_division_error [OF h1 h2 h3 h3, of "''max_dist''"] by blast
qed

theorem tesserae_score_missing_token_witness:
  "tesserae_score sorted_list_of_set [''a'', ''b''] [''b'', ''a'']
      [''a'' \<mapsto> 2] [''a'' \<mapsto> 2, ''b'' \<mapsto> 3] ''min_freq'' = Inl (KeyError ''b'')"
proof -
  have h1: "set_order (sorted_list_of_set :: string set \<Rightarrow> string list)"
    by (rule set_order_sorted_list_of_set)
  have h2: "2 \<le> card (set [''a'', ''b''] \<inter> set [''b'', ''a''])" by simp
  have h3: "''b'' \<in> set [''a'', ''b''] \<inter> set [''b'', ''a'']" by simp
  have h4: "[''a'' \<mapsto> 2::real] ''b'' = None \<or> [''a'' \<mapsto> 2, ''b'' \<mapsto> 3::real] ''b'' = None" by simp
  have nz: "(\<forall>u. [''a'' \<mapsto> 2::real] u \<noteq> Some 0) \<and> (\<forall>u. [''a'' \<mapsto> 2, ''b'' \<mapsto> 3::real] u \<noteq> Some 0)"
    by simp
  from tesserae_score_missing_token
         [of sorted_list_of_set "[''a'', ''b'']" "[''b'', ''a'']" "''b''" "[''a'' \<mapsto> 2]"
             "[''a'' \<mapsto> 2, ''b'' \<mapsto> 3]" "''min_freq''", OF h1 h2 h3 h4] nz
  obtain w' where w': "w' \<in> set [''a'', ''b''] \<inter> set [''b'', ''a'']"
      "[''a'' \<mapsto> 2::real] w' = None \<or> [''a'' \<mapsto> 2, ''b'' \<mapsto> 3::real] w' = None"
      "tesserae_score sorted_list_of_set [''a'', ''b''] [''b'', ''a'']
        [''a'' \<mapsto> 2] [''a'' \<mapsto> 2, ''b'' \<mapsto> 3] ''min_freq'' = Inl (KeyError w')"
    by blast
  from w'(1,2) have "w' = ''b''" by (auto split: if_splits)
  with w'(3) show ?thesis by simp
qed

subsection \<open>Independence from the iteration order of sets\<close>

lemma map_fst_insort_key_pair:
  "\<forall>p\<in>set ps. snd p = k (fst p) \<Longrightarrow>
   map fst (insort_key snd (x, k x) ps) = insort_key k x (map fst ps)"
  by (induction ps) auto

lemma set_sort_key_pairs:
  "\<forall>p\<in>set (sort_key snd (map (\<lambda>x. (x, k x)) xs)). snd p = k (fst p)"
  by auto

lemma map_fst_sort_key_pair:
  "map fst (sort_key snd (map (\<lambda>x. (x, k x)) xs)) = sort_key k xs"
proof (induction xs)
  case Nil
  show ?case by simp
next
  case (Cons x xs)
  have "map fst (insort_key snd (x, k x) (sort_key snd (map (\<lambda>x. (x, k x)) xs)))
          = insort_key k x (map fst (sort_key snd (map (\<lambda>x. (x, k x)) xs)))"
    by (rule map_fst_insort_key_pair) (rule set_sort_key_pairs)
  then show ?case using Cons.IH by simp
qed

lemma sorted_key_eq:
  assumes "\<And>x. x \<in> set xs \<Longrightarrow> key x = Inr (k x)"
  shows "sorted_key key xs = Inr (sort_key k xs)"
proof -
  have "map_result key xs = Inr (map k xs)" using assms by (rule map_result_total)
  moreover have "zip xs (map k xs) = map (\<lambda>x. (x, k x)) xs"
    by (simp add: zip_map2 zip_same_conv_map)
  ultimately show ?thesis by (simp add: sorted_key_def map_fst_sort_key_pair)
qed

lemma sort_key_inj_unique:
  assumes "distinct xs" and "distinct ys" and "set xs = set ys" and "inj_on k (set xs)"
  shows "sort_key k xs = sort_key k ys"
proof -
  have "map k (sort_key k xs) = map k (sort_key k ys)"
  proof (rule sorted_distinct_set_unique)
    show "sorted (map k (sort_key k xs))" "sorted (map k (sort_key k ys))" by simp_all
    show "distinct (map k (sort_key k xs))" using assms(1,4) by (simp add: distinct_map)
    show "distinct (map k (sort_key k ys))" using assms(2,3,4) by (simp add: distinct_map)
    show "set (map k (sort_key k xs)) = set (map k (sort_key k ys))" using assms(3) by simp
  qed
  moreover have "inj_on k (set (sort_key k xs) \<union> set (sort_key k ys))" using assms(3,4) by simp
  ultimately show ?thesis by (simp add: inj_on_map_eq_map)
qed

lemma tesserae_score_value:
  assumes "set_order enum" and "2 \<le> card (set s1 \<inter> set s2)"
    and "\<forall>w\<in>set s1 \<inter> set s2. \<exists>v. freqs1 w = Some v \<and> v \<noteq> 0"
    and "\<forall>w\<in>set s1 \<inter> set s2. \<exists>v. freqs2 w = Some v \<and> v \<noteq> 0"
    and "distances enum s1 s2 freqs1 freqs2 (set s1 \<inter> set s2) method = Inr (d_t, d_s)"
    and "0 < ((\<Sum>w\<in>set s1 \<inter> set s2. 1 / the (freqs1 w)) + (\<Sum>w\<in>set s1 \<inter> set s2. 1 / the (freqs2 w)))
              / real_of_int (d_t + d_s)"
  shows "tesserae_score enum s1 s2 freqs1 freqs2 method =
           Inr (ln (((\<Sum>w\<in>set s1 \<inter> set s2. 1 / the (freqs1 w)) + (\<Sum>w\<in>set s1 \<inter> set s2. 1 / the (freqs2 w)))
              / real_of_int (d_t + d_s)))"
proof -
  let ?M = "set s1 \<inter> set s2"
  have e: "set (enum ?M) = ?M" using set_orderD[OF assms(1), of ?M] by simp
  have iv: "inv_freq freqs x = Inr (1 / the (freqs x))" if "\<exists>v. freqs x = Some v \<and> v \<noteq> 0"
    for freqs :: "'a \<rightharpoonup> real" and x
    using that by (auto simp: inv_freq_Inr_iff)
  have t: "map_result (inv_freq freqs1) (enum ?M) = Inr (map (\<lambda>w. 1 / the (freqs1 w)) (enum ?M))"
    by (rule map_result_total, rule iv) (use assms(3) e in blast)
  have s: "map_result (inv_freq freqs2) (enum ?M) = Inr (map (\<lambda>w. 1 / the (freqs2 w)) (enum ?M))"
    by (rule map_result_total, rule iv) (use assms(4) e in blast)
  have st: "sum_list (map (\<lambda>w. 1 / the (freqs1 w)) (enum ?M)) = (\<Sum>w\<in>?M. 1 / the (freqs1 w))"
    using assms(1) t by (rule inv_freq_sum)
  have ss: "sum_list (map (\<lambda>w. 1 / the (freqs2 w)) (enum ?M)) = (\<Sum>w\<in>?M. 1 / the (freqs2 w))"
    using assms(1) s by (rule inv_freq_sum)
  have nz: "d_t + d_s \<noteq> 0" using assms(6) by (auto simp: zero_less_divide_iff)
  show ?thesis
    using tesserae_score_eq[OF assms(2) t s assms(5) nz] assms(6) unfolding st ss by simp
qed

subsection \<open>Distances are defined when the maps cover the segments\<close>

lemma distances_total:
  assumes "set_order enum" and "2 \<le> card (set s1 \<inter> set s2)"
    and "\<forall>w\<in>set s1. freqs1 w \<noteq> None" and "\<forall>w\<in>set s2. freqs2 w \<noteq> None"
    and "method = ''min_freq'' \<or> method = ''max_dist''"
  shows "\<exists>d_t d_s. distances enum s1 s2 freqs1 freqs2 matching method = Inr (d_t, d_s)"
proof (cases "distances enum s1 s2 freqs1 freqs2 matching method")
  case (Inl e)
  from distances_Inl[OF assms(1,2) Inl] assms(3,4,5) show ?thesis by blast
next
  case (Inr d)
  then show ?thesis by (cases d) simp
qed

subsection \<open>The min_freq example of the specification\<close>

lemma sorted_key_enum:
  assumes "set_order enum" and "\<forall>w\<in>set s. freqs w \<noteq> None" and "inj_on freqs (set s)"
  shows "sorted_key (getitem freqs) (enum (set s)) = sorted_key (getitem freqs) (remdups s)"
proof -
  let ?k = "\<lambda>w. the (freqs w)"
  have e: "set (enum (set s)) = set s" "distinct (enum (set s))"
    using set_orderD[OF assms(1), of "set s"] by simp_all
  have key: "getitem freqs x = Inr (?k x)" if "x \<in> set s" for x
    using that assms(2) by (auto simp: getitem_def split: option.splits)
  have inj: "inj_on ?k (set s)"
  proof (rule inj_onI)
    fix x y assume xy: "x \<in> set s" "y \<in> set s" "?k x = ?k y"
    then obtain a b where "freqs x = Some a" "freqs y = Some b" using assms(2) by fastforce
    with xy(3) have "freqs x = freqs y" by simp
    with assms(3) xy(1,2) show "x = y" by (simp add: inj_on_def)
  qed
  have a: "sorted_key (getitem freqs) (enum (set s)) = Inr (sort_key ?k (enum (set s)))"
    by (rule sorted_key_eq) (simp add: key e)
  have b: "sorted_key (getitem freqs) (remdups s) = Inr (sort_key ?k (remdups s))"
    by (rule sorted_key_eq) (simp add: key)
  have "sort_key ?k (enum (set s)) = sort_key ?k (remdups s)"
    by (rule sort_key_inj_unique) (simp_all add: e inj)
  then show ?thesis by (simp add: a b)
qed

lemma get_d_min_freq_eval:
  assumes "set_order enum" and "\<forall>w\<in>set s. freqs w \<noteq> None" and "inj_on freqs (set s)"
    and "get_d_min_freq (\<lambda>_. remdups s) s freqs = r"
  shows "get_d_min_freq enum s freqs = r"
  using sorted_key_enum[OF assms(1,2,3)] assms(4) by (simp add: get_d_min_freq_def)

lemma spec_freqs_cover: "\<forall>w\<in>set [''a'', ''b'', ''a'', ''c'']. spec_freqs w \<noteq> None"
  by (simp add: spec_freqs_def)

lemma spec_freqs_inj: "inj_on spec_freqs (set [''a'', ''b'', ''a'', ''c''])"
  by (auto simp: spec_freqs_def inj_on_def split: if_splits)

lemma sorted_key_abac:
  assumes "set_order enum"
  shows "sorted_key (getitem spec_freqs) (enum (set [''a'', ''b'', ''a'', ''c''])) = Inr [''a'', ''b'', ''c'']"
  unfolding sorted_key_enum[OF assms spec_freqs_cover spec_freqs_inj]
  by (simp add: sorted_key_def getitem_def spec_freqs_def)

lemma get_d_min_freq_abac:
  assumes "set_order enum"
  shows "get_d_min_freq enum [''a'', ''b'', ''a'', ''c''] spec_freqs = Inr 1"
  unfolding get_d_min_freq_def sorted_key_abac[OF assms] by simp

text \<open>
  C2 (amended): on the segment \<open>['a','b','a','c']\<close> with frequencies
  \<open>{a:1, b:5, c:10}\<close> the ascending sort by frequency is \<open>a, b, c\<close>, so
  \<open>get_d_min_freq\<close> selects \<open>a\<close> and \<open>b\<close>, whose first positions are 0 and 1,
  and returns 1, whatever the iteration order of the set.
\<close>

theorem get_d_min_freq_example:
  assumes "set_order enum"
  shows "sorted_key (getitem spec_freqs) (enum (set [''a'', ''b'', ''a'', ''c''])) = Inr [''a'', ''b'', ''c''] \<and>
   index [''a'', ''b'', ''a'', ''c''] ''a'' = Inr 0 \<and>
   index [''a'', ''b'', ''a'', ''c''] ''b'' = Inr 1 \<and>
   get_d_min_freq enum [''a'', ''b'', ''a'', ''c''] spec_freqs = Inr 1"
proof (intro conjI)
  show "sorted_key (getitem spec_freqs) (enum (set [''a'', ''b'', ''a'', ''c''])) = Inr [''a'', ''b'', ''c'']"
    using assms by (rule sorted_key_abac)
  show "get_d_min_freq enum [''a'', ''b'', ''a'', ''c''] spec_freqs = Inr 1"
    using assms by (rule get_d_min_freq_abac)
qed simp_all

theorem get_d_min_freq_example_witness:
  "set_order (sorted_list_of_set :: string set \<Rightarrow> string list) \<and>
   get_d_min_freq sorted_list_of_set [''a'', ''b'', ''a'', ''c''] spec_freqs = Inr 1"
  using get_d_min_freq_example [OF set_order_sorted_list_of_set] set_order_sorted_list_of_set
  by blast

text \<open>
  C2 as stated (distance 2, from \<open>b\<close> and \<open>c\<close>) fails on the code.
\<close>

theorem get_d_min_freq_example_counterexample:
  "get_d_min_freq sorted_list_of_set [''a'', ''b'', ''a'', ''c''] spec_freqs \<noteq> Inr 2"
  using get_d_min_freq_abac [OF set_order_sorted_list_of_set] by simp

subsection \<open>Scores on concrete segments\<close>

lemma get_d_min_freq_ab:
  assumes "set_order enum"
  shows "get_d_min_freq enum [''a'', ''b''] freqs_ab = Inr 1"
proof (rule get_d_min_freq_eval[OF assms])
  show "\<forall>w\<in>set [''a'', ''b'']. freqs_ab w \<noteq> None"
    by (simp add: freqs_ab_def)
  show "inj_on freqs_ab (set [''a'', ''b''])"
    by (auto simp: freqs_ab_def inj_on_def split: if_splits)
  show "get_d_min_freq (\<lambda>_. remdups [''a'', ''b'']) [''a'', ''b''] freqs_ab = Inr 1"
    by (simp add: get_d_min_freq_def sorted_key_def getitem_def freqs_ab_def)
qed

lemma tesserae_score_ab:
  assumes "set_order enum"
  shows "tesserae_score enum [''a'', ''b''] [''a'', ''b''] freqs_ab freqs_ab ''min_freq'' = Inr (ln (3 / 20))"
proof -
  let ?s = "[''a'', ''b'']"
  have c: "2 \<le> card (set ?s \<inter> set ?s)" by simp
  have z: "\<forall>w\<in>set ?s \<inter> set ?s. \<exists>v. freqs_ab w = Some v \<and> v \<noteq> 0" by (simp add: freqs_ab_def)
  have d: "distances enum ?s ?s freqs_ab freqs_ab (set ?s \<inter> set ?s) ''min_freq'' = Inr (1, 1)"
    by (simp add: distances_def get_d_min_freq_ab[OF assms])
  have s: "(\<Sum>w\<in>set ?s \<inter> set ?s. 1 / the (freqs_ab w)) = 3 / 20" by (simp add: freqs_ab_def)
  have q: "0 < ((\<Sum>w\<in>set ?s \<inter> set ?s. 1 / the (freqs_ab w)) + (\<Sum>w\<in>set ?s \<inter> set ?s. 1 / the (freqs_ab w)))
              / real_of_int (1 + 1)"
    unfolding s by simp
  show ?thesis
    using tesserae_score_value[OF assms c z z d q] unfolding s by simp
qed

text \<open>
  C3 as stated (every score is non-negative) fails: two identical segments
  \<open>['a','b']\<close> with frequencies 10 and 20 score \<open>ln (3/20)\<close>, which is negative.
\<close>

theorem tesserae_score_nonneg_counterexample:
  "tesserae_score sorted_list_of_set [''a'', ''b''] [''a'', ''b''] freqs_ab freqs_ab ''min_freq''
     = Inr (ln (3 / 20)) \<and> ln (3 / 20) < (0::real)"
  using tesserae_score_ab [OF set_order_sorted_list_of_set] by simp

lemma tesserae_score_eval:
  assumes "set_order enum" and "2 \<le> card (set s1 \<inter> set s2)"
    and "\<forall>w\<in>set s1 \<inter> set s2. \<exists>v. freqs1 w = Some v \<and> v \<noteq> 0"
    and "\<forall>w\<in>set s1 \<inter> set s2. \<exists>v. freqs2 w = Some v \<and> v \<noteq> 0"
    and "distances enum s1 s2 freqs1 freqs2 (set s1 \<inter> set s2) method = Inr (d_t, d_s)"
    and "(\<Sum>w\<in>set s1 \<inter> set s2. 1 / the (freqs1 w)) = a"
    and "(\<Sum>w\<in>set s1 \<inter> set s2. 1 / the (freqs2 w)) = b"
    and "0 < (a + b) / real_of_int (d_t + d_s)"
  shows "tesserae_score enum s1 s2 freqs1 freqs2 method = Inr (ln ((a + b) / real_of_int (d_t + d_s)))"
  using tesserae_score_value[OF assms(1,2,3,4,5)] assms(8) unfolding assms(6,7) by simp

lemma get_d_min_freq_abc:
  assumes "set_order enum"
  shows "get_d_min_freq enum [''a'', ''b'', ''c''] freqs_abc = Inr 1"
proof (rule get_d_min_freq_eval[OF assms])
  show "\<forall>w\<in>set [''a'', ''b'', ''c'']. freqs_abc w \<noteq> None"
    by (simp add: freqs_abc_def)
  show "inj_on freqs_abc (set [''a'', ''b'', ''c''])"
    by (auto simp: freqs_abc_def inj_on_def split: if_splits)
  show "get_d_min_freq (\<lambda>_. remdups [''a'', ''b'', ''c'']) [''a'', ''b'', ''c''] freqs_abc = Inr 1"
    by (simp add: get_d_min_freq_def sorted_key_def getitem_def freqs_abc_def)
qed

subsection \<open>The ranker\<close>

lemma map_result_rel:
  assumes "map_result f xs = Inr as"
    and "\<And>x a. x \<in> set xs \<Longrightarrow> f x = Inr a \<Longrightarrow> \<exists>b. g x = Inr b \<and> R a b"
  shows "\<exists>bs. map_result g xs = Inr bs \<and> list_all2 R as bs"
  using assms
proof (induction xs arbitrary: as)
  case Nil
  then show ?case by simp
next
  case (Cons x xs)
  from Cons.prems(1) obtain a as' where a: "f x = Inr a" and as': "map_result f xs = Inr as'"
    and as: "as = a # as'"
    by (auto split: sum.splits)
  from Cons.prems(2)[OF _ a] obtain b where b: "g x = Inr b" "R a b" by auto
  from Cons.IH[OF as'] Cons.prems(2) obtain bs where bs: "map_result g xs = Inr bs" "list_all2 R as' bs"
    by auto
  show ?case using as b bs by simp
qed


lemma sum_list_fst_mono:
  "list_all2 (\<lambda>a b. (fst a :: nat) \<le> fst b) as bs \<Longrightarrow> sum_list (map fst as) \<le> sum_list (map fst bs)"
  by (induction rule: list_all2_induct) auto


lemma slice_to_mono: "0 \<le> k \<Longrightarrow> k \<le> l \<Longrightarrow> set (slice_to k xs) \<subseteq> set (slice_to l xs)"
  by (simp add: slice_to_def set_take_subset_set_take)

lemma sorted_wrt_slice_to: "sorted_wrt P xs \<Longrightarrow> sorted_wrt P (slice_to k xs)"
  by (simp add: slice_to_def sorted_wrt_take)



lemma select_idxs_mono:
  "0 \<le> k \<Longrightarrow> k \<le> l \<Longrightarrow> set (select_idxs argsort k tscores) \<subseteq> set (select_idxs argsort l tscores)"
  using slice_to_mono[of k l "rev (argsort tscores)"] by (auto simp: select_idxs_def)

lemma select_idxs_sorted:
  assumes "argsort_ok argsort"
  shows "sorted_wrt (\<lambda>i j. tscores ! j \<le> tscores ! i) (select_idxs argsort k tscores)"
proof -
  have "sorted (map (\<lambda>i. tscores ! i) (argsort tscores))"
    using assms by (simp add: argsort_ok_def)
  then have "sorted_wrt (\<lambda>i j. tscores ! i \<le> tscores ! j) (argsort tscores)"
    by (simp add: sorted_map)
  then have "sorted_wrt (\<lambda>i j. tscores ! j \<le> tscores ! i) (rev (argsort tscores))"
    by (simp add: sorted_wrt_rev)
  then show ?thesis
    unfolding select_idxs_def by (intro sorted_wrt_filter sorted_wrt_slice_to)
qed

lemma baseline_round_Inr:
  assumes "baseline_round enum argsort trg src_freqs trg_freqs k (idx, s1) = Inr r"
  obtains tscores where
    "map_result (\<lambda>s2. tesserae_score enum s1 s2 src_freqs trg_freqs ''min_freq'') trg = Inr tscores"
    and "r = (if idx \<in> set (select_idxs argsort k tscores) then 1 else 0,
              map (\<lambda>i. (i, tscores ! i, card (set s1 \<inter> set (trg ! i)))) (select_idxs argsort k tscores))"
  using assms by (auto simp: baseline_round_def Let_def split: sum.splits)

lemma tesserae_baseline_Inr:
  assumes "tesserae_baseline enum argsort src trg src_freqs trg_freqs k method = Inr (recall, output)"
  obtains rounds where
    "map_result (baseline_round enum argsort trg src_freqs trg_freqs k) (zip [0 ..< length src] src) = Inr rounds"
    and "output = map snd rounds" and "length rounds \<noteq> 0"
    and "recall = real (sum_list (map fst rounds)) / real (length rounds)"
  using assms
  by (auto simp: tesserae_baseline_def Let_def truediv_def split: sum.splits if_splits)


lemma baseline_round_mono:
  assumes "0 \<le> k" and "k \<le> l"
    and "baseline_round enum argsort trg src_freqs trg_freqs k p = Inr a"
  shows "\<exists>b. baseline_round enum argsort trg src_freqs trg_freqs l p = Inr b \<and> fst a \<le> fst b"
proof -
  obtain idx s1 where p: "p = (idx, s1)" by (cases p)
  from assms(3)[unfolded p] obtain tscores where
    t: "map_result (\<lambda>s2. tesserae_score enum s1 s2 src_freqs trg_freqs ''min_freq'') trg = Inr tscores"
    and a: "a = (if idx \<in> set (select_idxs argsort k tscores) then 1 else 0,
              map (\<lambda>i. (i, tscores ! i, card (set s1 \<inter> set (trg ! i)))) (select_idxs argsort k tscores))"
    by (rule baseline_round_Inr)
  have "idx \<in> set (select_idxs argsort k tscores) \<Longrightarrow> idx \<in> set (select_idxs argsort l tscores)"
    using select_idxs_mono[OF assms(1,2)] by blast
  then show ?thesis
    unfolding p a by (simp add: baseline_round_def t Let_def)
qed

text \<open>
  C7: for fixed inputs and method, the recall computed by \<open>tesserae_baseline\<close> does not
  decrease when the cutoff grows: if the run with cutoff \<open>at1 \<ge> 0\<close> returns recall
  \<open>r1\<close>, the run with any cutoff \<open>at2 \<ge> at1\<close> returns too, with a recall \<open>r2 \<ge> r1\<close>.
\<close>

theorem tesserae_baseline_recall_mono:
  assumes "0 \<le> at1" and "at1 \<le> at2"
    and "tesserae_baseline enum argsort src trg src_freqs trg_freqs at1 method = Inr (r1, o1)"
  shows "\<exists>r2 o2. tesserae_baseline enum argsort src trg src_freqs trg_freqs at2 method = Inr (r2, o2)
           \<and> r1 \<le> r2"
proof -
  let ?ps = "zip [0 ..< length src] src"
  from assms(3) obtain rounds1 where
    m1: "map_result (baseline_round enum argsort trg src_freqs trg_freqs at1) ?ps = Inr rounds1"
    and n: "length rounds1 \<noteq> 0"
    and r1: "r1 = real (sum_list (map fst rounds1)) / real (length rounds1)"
    by (rule tesserae_baseline_Inr)
  from map_result_rel[OF m1, of "baseline_round enum argsort trg src_freqs trg_freqs at2"
      "\<lambda>a b. fst a \<le> fst b"] baseline_round_mono[OF assms(1,2)]
  obtain rounds2 where
    m2: "map_result (baseline_round enum argsort trg src_freqs trg_freqs at2) ?ps = Inr rounds2"
    and rel: "list_all2 (\<lambda>a b. fst a \<le> fst b) rounds1 rounds2"
    by blast
  have len: "length rounds2 = length rounds1" using rel by (simp add: list_all2_lengthD)
  have le: "sum_list (map fst rounds1) \<le> sum_list (map fst rounds2)"
    using rel by (rule sum_list_fst_mono)
  have "tesserae_baseline enum argsort src trg src_freqs trg_freqs at2 method
          = Inr (real (sum_list (map fst rounds2)) / real (length rounds2), map snd rounds2)"
  proof -
    have "rounds2 \<noteq> []" using n len by auto
    then show ?thesis by (simp add: tesserae_baseline_def m2 Let_def truediv_def)
  qed
  moreover have "r1 \<le> real (sum_list (map fst rounds2)) / real (length rounds2)"
    unfolding r1 len using le n by (simp add: divide_right_mono)
  ultimately show ?thesis by blast
qed

subsection \<open>Admissible argsorts and the order of the returned candidates\<close>

lemma argsort_ok_stable: "argsort_ok stable_argsort"
  by (simp add: argsort_ok_def stable_argsort_def)

lemma argsort_ok_antistable: "argsort_ok antistable_argsort"
proof -
  have "sorted (map (\<lambda>i. xs ! i) (antistable_argsort xs))" for xs :: "real list"
  proof -
    let ?L = "sort_key (\<lambda>i. - (xs ! i)) [0..<length xs]"
    have "sorted (map (\<lambda>i. - (xs ! i)) ?L)" by simp
    then have "sorted_wrt (\<lambda>i j. - (xs ! i) \<le> - (xs ! j)) ?L" by (simp add: sorted_map)
    then have "sorted_wrt (\<lambda>i j. xs ! j \<le> xs ! i) ?L" by simp
    then have "sorted_wrt (\<lambda>i j. xs ! i \<le> xs ! j) (rev ?L)" by (simp add: sorted_wrt_rev)
    then show ?thesis by (simp add: antistable_argsort_def sorted_map)
  qed
  then show ?thesis by (simp add: argsort_ok_def antistable_argsort_def)
qed

lemma select_idxs_subseq: "subseq (select_idxs argsort k tscores) (rev (argsort tscores))"
proof -
  have "subseq (slice_to k (rev (argsort tscores))) (rev (argsort tscores))"
    by (simp add: slice_to_def prefix_imp_subseq take_is_prefix)
  moreover have "subseq (select_idxs argsort k tscores) (slice_to k (rev (argsort tscores)))"
    by (simp add: select_idxs_def)
  ultimately show ?thesis by (rule subseq_order.trans[rotated])
qed

lemma tesserae_baseline_round_nth:
  assumes "tesserae_baseline enum argsort src trg src_freqs trg_freqs k method = Inr (recall, output)"
    and "n < length src"
  shows "\<exists>tscores.
           map_result (\<lambda>s2. tesserae_score enum (src ! n) s2 src_freqs trg_freqs ''min_freq'') trg = Inr tscores \<and>
           output ! n = map (\<lambda>i. (i, tscores ! i, card (set (src ! n) \<inter> set (trg ! i))))
                          (select_idxs argsort k tscores)"
proof -
  let ?ps = "zip [0 ..< length src] src"
  from assms(1) obtain rounds where
    rounds: "map_result (baseline_round enum argsort trg src_freqs trg_freqs k) ?ps = Inr rounds"
    and outp: "output = map snd rounds"
    by (rule tesserae_baseline_Inr)
  have len: "length rounds = length src"
    using map_result_Inr_length[OF rounds] by simp
  have "baseline_round enum argsort trg src_freqs trg_freqs k (?ps ! n) = Inr (rounds ! n)"
    by (rule map_result_Inr_nth[OF rounds]) (use assms(2) in simp)
  then have "baseline_round enum argsort trg src_freqs trg_freqs k (n, src ! n) = Inr (rounds ! n)"
    using assms(2) by simp
  then obtain tscores where
    t: "map_result (\<lambda>s2. tesserae_score enum (src ! n) s2 src_freqs trg_freqs ''min_freq'') trg = Inr tscores"
    and r: "rounds ! n = (if n \<in> set (select_idxs argsort k tscores) then 1 else 0,
              map (\<lambda>i. (i, tscores ! i, card (set (src ! n) \<inter> set (trg ! i)))) (select_idxs argsort k tscores))"
    by (rule baseline_round_Inr)
  have "output ! n = snd (rounds ! n)" using outp len assms(2) by simp
  then show ?thesis using t r by simp
qed

subsection \<open>The loop on concrete segments\<close>

lemma get_d_min_freq_ab_abc:
  assumes "set_order enum"
  shows "get_d_min_freq enum [''a'', ''b''] freqs_abc = Inr 1"
proof (rule get_d_min_freq_eval[OF assms])
  show "\<forall>w\<in>set [''a'', ''b'']. freqs_abc w \<noteq> None"
    by (simp add: freqs_abc_def)
  show "inj_on freqs_abc (set [''a'', ''b''])"
    by (auto simp: freqs_abc_def inj_on_def split: if_splits)
  show "get_d_min_freq (\<lambda>_. remdups [''a'', ''b'']) [''a'', ''b''] freqs_abc = Inr 1"
    by (simp add: get_d_min_freq_def sorted_key_def getitem_def freqs_abc_def)
qed

lemma tesserae_score_ab_abc:
  assumes "set_order enum"
  shows "tesserae_score enum [''a'', ''b''] [''a'', ''b''] freqs_abc freqs_abc ''min_freq'' = Inr (ln (3 / 2))"
proof -
  let ?s = "[''a'', ''b'']"
  have "tesserae_score enum ?s ?s freqs_abc freqs_abc ''min_freq''
          = Inr (ln ((3 / 2 + 3 / 2) / real_of_int (1 + 1)))"
  proof (rule tesserae_score_eval[OF assms])
    show "2 \<le> card (set ?s \<inter> set ?s)" by simp
    show "\<forall>w\<in>set ?s \<inter> set ?s. \<exists>v. freqs_abc w = Some v \<and> v \<noteq> 0" by (simp add: freqs_abc_def)
    then show "\<forall>w\<in>set ?s \<inter> set ?s. \<exists>v. freqs_abc w = Some v \<and> v \<noteq> 0" .
    show "distances enum ?s ?s freqs_abc freqs_abc (set ?s \<inter> set ?s) ''min_freq'' = Inr (1, 1)"
      by (simp add: distances_def get_d_min_freq_ab_abc[OF assms])
    show "(\<Sum>w\<in>set ?s \<inter> set ?s. 1 / the (freqs_abc w)) = 3 / 2" by (simp add: freqs_abc_def)
    then show "(\<Sum>w\<in>set ?s \<inter> set ?s. 1 / the (freqs_abc w)) = 3 / 2" .
    show "0 < (3 / 2 + 3 / 2) / real_of_int (1 + 1)" by simp
  qed
  then show ?thesis by simp
qed

lemma tesserae_score_abc_min_freq:
  assumes "set_order enum"
  shows "tesserae_score enum [''a'', ''b'', ''c''] [''a'', ''b'', ''c''] freqs_abc freqs_abc ''min_freq''
           = Inr (ln (11 / 6))"
proof -
  let ?s = "[''a'', ''b'', ''c'']"
  have "tesserae_score enum ?s ?s freqs_abc freqs_abc ''min_freq''
          = Inr (ln ((11 / 6 + 11 / 6) / real_of_int (1 + 1)))"
  proof (rule tesserae_score_eval[OF assms])
    show "2 \<le> card (set ?s \<inter> set ?s)" by simp
    show "\<forall>w\<in>set ?s \<inter> set ?s. \<exists>v. freqs_abc w = Some v \<and> v \<noteq> 0" by (simp add: freqs_abc_def)
    then show "\<forall>w\<in>set ?s \<inter> set ?s. \<exists>v. freqs_abc w = Some v \<and> v \<noteq> 0" .
    show "distances enum ?s ?s freqs_abc freqs_abc (set ?s \<inter> set ?s) ''min_freq'' = Inr (1, 1)"
      by (simp add: distances_def get_d_min_freq_abc[OF assms])
    show "(\<Sum>w\<in>set ?s \<inter> set ?s. 1 / the (freqs_abc w)) = 11 / 6" by (simp add: freqs_abc_def)
    then show "(\<Sum>w\<in>set ?s \<inter> set ?s. 1 / the (freqs_abc w)) = 11 / 6" .
    show "0 < (11 / 6 + 11 / 6) / real_of_int (1 + 1)" by simp
  qed
  then show ?thesis by simp
qed

lemma get_d_max_dist_abc:
  "get_d_max_dist [''a'', ''b'', ''c''] (set [''a'', ''b'', ''c''] \<inter> set [''a'', ''b'', ''c'']) = 2"
  by (simp add: get_d_max_dist_def upt_rec)

lemma tesserae_score_abc_max_dist:
  assumes "set_order enum"
  shows "tesserae_score enum [''a'', ''b'', ''c''] [''a'', ''b'', ''c''] freqs_abc freqs_abc ''max_dist''
           = Inr (ln (11 / 12))"
proof -
  let ?s = "[''a'', ''b'', ''c'']"
  have "tesserae_score enum ?s ?s freqs_abc freqs_abc ''max_dist''
          = Inr (ln ((11 / 6 + 11 / 6) / real_of_int (2 + 2)))"
  proof (rule tesserae_score_eval[OF assms])
    show "2 \<le> card (set ?s \<inter> set ?s)" by simp
    show "\<forall>w\<in>set ?s \<inter> set ?s. \<exists>v. freqs_abc w = Some v \<and> v \<noteq> 0" by (simp add: freqs_abc_def)
    then show "\<forall>w\<in>set ?s \<inter> set ?s. \<exists>v. freqs_abc w = Some v \<and> v \<noteq> 0" .
    show "distances enum ?s ?s freqs_abc freqs_abc (set ?s \<inter> set ?s) ''max_dist'' = Inr (2, 2)"
      unfolding distances_def get_d_max_dist_abc by simp
    show "(\<Sum>w\<in>set ?s \<inter> set ?s. 1 / the (freqs_abc w)) = 11 / 6" by (simp add: freqs_abc_def)
    then show "(\<Sum>w\<in>set ?s \<inter> set ?s. 1 / the (freqs_abc w)) = 11 / 6" .
    show "0 < (11 / 6 + 11 / 6) / real_of_int (2 + 2)" by simp
  qed
  then show ?thesis by simp
qed

lemma select_idxs_tie2: "select_idxs stable_argsort 2 [ln (3 / 2), ln (3 / 2)] = [1, 0]"
  by (simp add: select_idxs_def stable_argsort_def slice_to_def upt_rec)

lemma select_idxs_tie1: "select_idxs stable_argsort 1 [ln (3 / 2), ln (3 / 2)] = [1]"
  by (simp add: select_idxs_def stable_argsort_def slice_to_def upt_rec)

lemma tesserae_baseline_tie2:
  assumes "set_order enum"
  shows "tesserae_baseline enum stable_argsort [[''a'', ''b'']] [[''a'', ''b''], [''a'', ''b'']]
           freqs_abc freqs_abc 2 method
         = Inr (1, [[(1, ln (3 / 2), 2), (0, ln (3 / 2), 2)]])"
  by (simp add: tesserae_baseline_def baseline_round_def tesserae_score_ab_abc[OF assms]
      select_idxs_tie2 truediv_def)

lemma tesserae_baseline_tie1:
  assumes "set_order enum"
  shows "tesserae_baseline enum stable_argsort [[''a'', ''b'']] [[''a'', ''b''], [''a'', ''b'']]
           freqs_abc freqs_abc 1 method
         = Inr (0, [[(1, ln (3 / 2), 2)]])"
  by (simp add: tesserae_baseline_def baseline_round_def tesserae_score_ab_abc[OF assms]
      select_idxs_tie1 truediv_def)

lemma select_idxs_tie2_antistable: "select_idxs antistable_argsort 2 [ln (3 / 2), ln (3 / 2)] = [0, 1]"
  by (simp add: select_idxs_def antistable_argsort_def slice_to_def upt_rec)

lemma tesserae_baseline_tie2_antistable:
  assumes "set_order enum"
  shows "tesserae_baseline enum antistable_argsort [[''a'', ''b'']] [[''a'', ''b''], [''a'', ''b'']]
           freqs_abc freqs_abc 2 method
         = Inr (1, [[(0, ln (3 / 2), 2), (1, ln (3 / 2), 2)]])"
  by (simp add: tesserae_baseline_def baseline_round_def tesserae_score_ab_abc[OF assms]
      select_idxs_tie2_antistable truediv_def)

lemma select_idxs_one: "select_idxs stable_argsort 1 [ln (11 / 6)] = [0]"
  by (simp add: select_idxs_def stable_argsort_def slice_to_def)

lemma tesserae_baseline_abc:
  assumes "set_order enum"
  shows "tesserae_baseline enum stable_argsort [[''a'', ''b'', ''c'']] [[''a'', ''b'', ''c'']]
           freqs_abc freqs_abc 1 method
         = Inr (1, [[(0, ln (11 / 6), 3)]])"
  by (simp add: tesserae_baseline_def baseline_round_def tesserae_score_abc_min_freq[OF assms]
      select_idxs_one truediv_def)

text \<open>
  C4 (amended): each returned list is ordered by non-increasing score, and its candidates
  follow the reverse of the order in which \<open>np.argsort\<close> lists them.  As the default
  \<open>np.argsort\<close> is not a stable sort, the order among candidates with equal scores is
  not specified: it is neither guaranteed to be the original candidate order nor its
  reverse.  Two argsorts that meet the contract return the two tied candidates of the
  example below in the two different orders.
\<close>

theorem tesserae_baseline_tie_order:
  assumes "argsort_ok argsort"
    and "tesserae_baseline enum argsort src trg src_freqs trg_freqs at' method = Inr (recall, output)"
    and "n < length src"
  shows "(\<exists>tscores.
            map_result (\<lambda>s2. tesserae_score enum (src ! n) s2 src_freqs trg_freqs ''min_freq'') trg
              = Inr tscores \<and>
            subseq (map fst (output ! n)) (rev (argsort tscores)) \<and>
            map (\<lambda>c. fst (snd c)) (output ! n) = map (\<lambda>i. tscores ! i) (map fst (output ! n)) \<and>
            sorted_wrt (\<lambda>a b. fst (snd b) \<le> fst (snd a)) (output ! n)) \<and>
         argsort_ok stable_argsort \<and> argsort_ok antistable_argsort \<and>
         tesserae_baseline sorted_list_of_set stable_argsort [[''a'', ''b'']] [[''a'', ''b''], [''a'', ''b'']]
           freqs_abc freqs_abc 2 ''min_freq''
           = Inr (1, [[(1, ln (3 / 2), 2), (0, ln (3 / 2), 2)]]) \<and>
         tesserae_baseline sorted_list_of_set antistable_argsort [[''a'', ''b'']] [[''a'', ''b''], [''a'', ''b'']]
           freqs_abc freqs_abc 2 ''min_freq''
           = Inr (1, [[(0, ln (3 / 2), 2), (1, ln (3 / 2), 2)]])"
proof (intro conjI)
  from tesserae_baseline_round_nth[OF assms(2,3)] obtain tscores where
    t: "map_result (\<lambda>s2. tesserae_score enum (src ! n) s2 src_freqs trg_freqs ''min_freq'') trg = Inr tscores"
    and o: "output ! n = map (\<lambda>i. (i, tscores ! i, card (set (src ! n) \<inter> set (trg ! i))))
                          (select_idxs argsort at' tscores)"
    by blast
  have m: "map fst (output ! n) = select_idxs argsort at' tscores"
    unfolding o by (simp add: comp_def)
  have "subseq (map fst (output ! n)) (rev (argsort tscores))"
    unfolding m by (rule select_idxs_subseq)
  moreover have "map (\<lambda>c. fst (snd c)) (output ! n) = map (\<lambda>i. tscores ! i) (map fst (output ! n))"
    unfolding o by (simp add: comp_def)
  moreover have "sorted_wrt (\<lambda>a b. fst (snd b) \<le> fst (snd a)) (output ! n)"
    unfolding o using select_idxs_sorted[OF assms(1), of tscores at'] by (simp add: sorted_wrt_map)
  ultimately show "\<exists>tscores.
            map_result (\<lambda>s2. tesserae_score enum (src ! n) s2 src_freqs trg_freqs ''min_freq'') trg
              = Inr tscores \<and>
            subseq (map fst (output ! n)) (rev (argsort tscores)) \<and>
            map (\<lambda>c. fst (snd c)) (output ! n) = map (\<lambda>i. tscores ! i) (map fst (output ! n)) \<and>
            sorted_wrt (\<lambda>a b. fst (snd b) \<le> fst (snd a)) (output ! n)"
    using t by blast
next
  show "argsort_ok stable_argsort" by (rule argsort_ok_stable)
next
  show "argsort_ok antistable_argsort" by (rule argsort_ok_antistable)
next
  show "tesserae_baseline sorted_list_of_set stable_argsort [[''a'', ''b'']] [[''a'', ''b''], [''a'', ''b'']]
           freqs_abc freqs_abc 2 ''min_freq''
           = Inr (1, [[(1, ln (3 / 2), 2), (0, ln (3 / 2), 2)]])"
    by (rule tesserae_baseline_tie2[OF set_order_sorted_list_of_set])
next
  show "tesserae_baseline sorted_list_of_set antistable_argsort [[''a'', ''b'']] [[''a'', ''b''], [''a'', ''b'']]
           freqs_abc freqs_abc 2 ''min_freq''
           = Inr (1, [[(0, ln (3 / 2), 2), (1, ln (3 / 2), 2)]])"
    by (rule tesserae_baseline_tie2_antistable[OF set_order_sorted_list_of_set])
qed

theorem tesserae_baseline_tie_order_witness:
  "\<exists>tscores.
     map_result (\<lambda>s2. tesserae_score sorted_list_of_set ([[''a'', ''b'']] ! 0) s2 freqs_abc freqs_abc ''min_freq'')
       [[''a'', ''b''], [''a'', ''b'']] = Inr tscores \<and>
     subseq (map fst ([[(0::nat, ln (3 / 2) :: real, 2::nat), (1, ln (3 / 2), 2)]] ! 0))
       (rev (antistable_argsort tscores))"
proof -
  have r: "tesserae_baseline sorted_list_of_set antistable_argsort [[''a'', ''b'']] [[''a'', ''b''], [''a'', ''b'']]
             freqs_abc freqs_abc 2 ''min_freq''
           = Inr (1, [[(0, ln (3 / 2), 2), (1, ln (3 / 2), 2)]])"
    by (rule tesserae_baseline_tie2_antistable[OF set_order_sorted_list_of_set])
  have n: "0 < length [[''a'', ''b'']]" by simp
  from tesserae_baseline_tie_order [OF argsort_ok_antistable r n] show ?thesis by blast
qed

text \<open>
  C4 as stated (ties keep the original candidate order) is not what the code
  guarantees: with an argsort that meets the contract of \<open>np.argsort\<close> and lists equal
  scores in index order, two candidates equal to the query get the same score
  \<open>ln (3/2)\<close> and are returned as candidate 1, then candidate 0.
\<close>

theorem tesserae_baseline_ties_counterexample:
  "argsort_ok stable_argsort \<and>
   tesserae_baseline sorted_list_of_set stable_argsort [[''a'', ''b'']] [[''a'', ''b''], [''a'', ''b'']]
     freqs_abc freqs_abc 2 ''min_freq''
   = Inr (1, [[(1, ln (3 / 2), 2), (0, ln (3 / 2), 2)]])"
  using argsort_ok_stable tesserae_baseline_tie2[OF set_order_sorted_list_of_set] by blast


theorem tesserae_baseline_recall_mono_witness:
  "\<exists>r2 o2. tesserae_baseline sorted_list_of_set stable_argsort [[''a'', ''b'']] [[''a'', ''b''], [''a'', ''b'']]
              freqs_abc freqs_abc 2 ''min_freq'' = Inr (r2, o2) \<and> 0 \<le> r2"
proof -
  have r: "tesserae_baseline sorted_list_of_set stable_argsort [[''a'', ''b'']] [[''a'', ''b''], [''a'', ''b'']]
             freqs_abc freqs_abc 1 ''min_freq''
           = Inr (0, [[(1, ln (3 / 2), 2)]])"
    by (rule tesserae_baseline_tie1[OF set_order_sorted_list_of_set])
  have k: "(0::int) \<le> 1" "(1::int) \<le> 2" by simp_all
  show ?thesis by (rule tesserae_baseline_recall_mono [OF k r])
qed

text \<open>
  C1: \<open>tesserae_baseline\<close> takes a method but calls \<open>tesserae_score\<close> without it, so
  every run scores with \<open>min_freq\<close>.  On one query \<open>['a','b','c']\<close> with itself as the
  only candidate, the run with method \<open>'max_dist'\<close> reports the \<open>min_freq\<close> score
  \<open>ln (11/6)\<close> and recall 1, although the \<open>max_dist\<close> score of the pair is
  \<open>ln (11/12)\<close>, which is negative and would have been filtered out.
\<close>

theorem tesserae_baseline_ignores_method:
  "tesserae_baseline sorted_list_of_set stable_argsort [[''a'', ''b'', ''c'']] [[''a'', ''b'', ''c'']]
     freqs_abc freqs_abc 1 ''max_dist''
     = Inr (1, [[(0, ln (11 / 6), 3)]]) \<and>
   tesserae_score sorted_list_of_set [''a'', ''b'', ''c''] [''a'', ''b'', ''c''] freqs_abc freqs_abc ''min_freq''
     = Inr (ln (11 / 6)) \<and>
   tesserae_score sorted_list_of_set [''a'', ''b'', ''c''] [''a'', ''b'', ''c''] freqs_abc freqs_abc ''max_dist''
     = Inr (ln (11 / 12)) \<and>
   ln (11 / 12) < (0::real)"
  using tesserae_baseline_abc [OF set_order_sorted_list_of_set, of "''max_dist''"]
    tesserae_score_abc_min_freq [OF set_order_sorted_list_of_set]
    tesserae_score_abc_max_dist [OF set_order_sorted_list_of_set]
  by simp

subsection \<open>The scorer on floating-point numbers\<close>

lemma fl_inv_freq_total:
  assumes "\<And>w. w \<in> set ws \<Longrightarrow> \<exists>v. freqs w = Some v \<and> v \<noteq> 0"
  shows "map_result (fl_inv_freq ar freqs) ws = Inr (map (\<lambda>w. fdiv ar 1 (the (freqs w))) ws)"
proof (rule map_result_total)
  fix w assume "w \<in> set ws"
  then obtain v where "freqs w = Some v" "v \<noteq> 0" using assms by blast
  then show "fl_inv_freq ar freqs w = Inr (fdiv ar 1 (the (freqs w)))"
    by (simp add: fl_inv_freq_def getitem_def fl_truediv_def)
qed

lemma tesserae_score_fl_eq:
  assumes "set_order enum" and "2 \<le> card (set s1 \<inter> set s2)"
    and "\<forall>w\<in>set s1 \<inter> set s2. \<exists>v. freqs1 w = Some v \<and> v \<noteq> 0"
    and "\<forall>w\<in>set s1 \<inter> set s2. \<exists>v. freqs2 w = Some v \<and> v \<noteq> 0"
    and "distances enum s1 s2 freqs1 freqs2 (set s1 \<inter> set s2) method = Inr (d_t, d_s)"
    and "d_t + d_s \<noteq> 0"
  shows "tesserae_score_fl ar enum s1 s2 freqs1 freqs2 method =
           (if quotient_fl ar enum s1 s2 freqs1 freqs2 d_t d_s \<le> 0 then Inl ValueError
            else Inr (flog ar (quotient_fl ar enum s1 s2 freqs1 freqs2 d_t d_s)))"
proof -
  let ?M = "set s1 \<inter> set s2"
  have e: "set (enum ?M) = ?M" using set_orderD[OF assms(1), of ?M] by simp
  have t: "map_result (fl_inv_freq ar freqs1) (enum ?M)
             = Inr (map (\<lambda>w. fdiv ar 1 (the (freqs1 w))) (enum ?M))"
    by (rule fl_inv_freq_total) (use assms(3) e in blast)
  have s: "map_result (fl_inv_freq ar freqs2) (enum ?M)
             = Inr (map (\<lambda>w. fdiv ar 1 (the (freqs2 w))) (enum ?M))"
    by (rule fl_inv_freq_total) (use assms(4) e in blast)
  have c: "\<not> card ?M < 2" using assms(2) by simp
  have nz: "real_of_int (d_t + d_s) \<noteq> 0" using assms(6) by simp
  show ?thesis
    unfolding tesserae_score_fl_def quotient_fl_def Let_def fl_truediv_def fl_math_log_def
    by (simp only: c t s assms(5) nz sum.case prod.case if_False)
qed

lemma tesserae_score_fl_exact:
  "tesserae_score_fl exact enum s1 s2 freqs1 freqs2 method = tesserae_score enum s1 s2 freqs1 freqs2 method"
proof -
  have d: "fl_truediv exact x y = (truediv x y :: 'a error + real)" for x y
    by (simp add: fl_truediv_def truediv_def exact_def)
  have i: "fl_inv_freq exact freqs = inv_freq freqs" for freqs :: "'a \<rightharpoonup> real"
    by (rule ext) (simp add: fl_inv_freq_def inv_freq_def d split: sum.splits)
  have l: "fl_math_log exact x = (math_log x :: 'a error + real)" for x
    by (simp add: fl_math_log_def math_log_def exact_def)
  have a: "fadd exact x y = x + y" "fsum exact xs = sum_list xs" for x y xs
    by (simp_all add: exact_def)
  show ?thesis
    unfolding tesserae_score_fl_def tesserae_score_def i d l a ..
qed

lemma log_sign_ok_exact: "log_sign_ok exact"
  by (simp add: log_sign_ok_def exact_def)

text \<open>
  C3 (amended): with frequency maps that cover the tokens of their segments with positive
  weights, and either method, \<open>tesserae_score\<close> returns exactly 0 when fewer than two
  tokens are shared.  Otherwise \<open>d_t + d_s\<close> is at least 2 and the call returns
  \<open>math.log\<close> of the quotient \<open>(f_t + f_s) / (d_t + d_s)\<close> as computed on line 75,
  raising only a \<open>ValueError\<close>, when that quotient is not positive; the score is
  non-negative exactly when the computed quotient is at least 1 and negative when it is
  below 1.  This holds for every rounding of the arithmetic and every \<open>math.log\<close> that
  is negative exactly below 1.
\<close>

theorem tesserae_score_fl_sign:
  assumes "set_order enum" and "log_sign_ok ar"
    and "\<forall>w\<in>set s1. \<exists>v. freqs1 w = Some v \<and> 0 < v"
    and "\<forall>w\<in>set s2. \<exists>v. freqs2 w = Some v \<and> 0 < v"
    and "method = ''min_freq'' \<or> method = ''max_dist''"
  shows "(card (set s1 \<inter> set s2) < 2 \<longrightarrow>
            tesserae_score_fl ar enum s1 s2 freqs1 freqs2 method = Inr 0) \<and>
         (2 \<le> card (set s1 \<inter> set s2) \<longrightarrow>
            (\<exists>d_t d_s.
               distances enum s1 s2 freqs1 freqs2 (set s1 \<inter> set s2) method = Inr (d_t, d_s) \<and>
               2 \<le> d_t + d_s \<and>
               tesserae_score_fl ar enum s1 s2 freqs1 freqs2 method =
                 (if quotient_fl ar enum s1 s2 freqs1 freqs2 d_t d_s \<le> 0 then Inl ValueError
                  else Inr (flog ar (quotient_fl ar enum s1 s2 freqs1 freqs2 d_t d_s))) \<and>
               (\<forall>v. tesserae_score_fl ar enum s1 s2 freqs1 freqs2 method = Inr v \<longrightarrow>
                  (0 \<le> v \<longleftrightarrow> 1 \<le> quotient_fl ar enum s1 s2 freqs1 freqs2 d_t d_s))))"
proof (intro conjI impI)
  assume "card (set s1 \<inter> set s2) < 2"
  then show "tesserae_score_fl ar enum s1 s2 freqs1 freqs2 method = Inr 0"
    by (simp add: tesserae_score_fl_def)
next
  assume c: "2 \<le> card (set s1 \<inter> set s2)"
  let ?M = "set s1 \<inter> set s2"
  have n1: "\<forall>w\<in>set s1. freqs1 w \<noteq> None" and n2: "\<forall>w\<in>set s2. freqs2 w \<noteq> None"
    using assms(3,4) by fastforce+
  from distances_total[OF assms(1) c n1 n2 assms(5)] obtain d_t d_s where
    d: "distances enum s1 s2 freqs1 freqs2 ?M method = Inr (d_t, d_s)" by blast
  from distances_ge1[OF assms(1) c d] have D: "2 \<le> d_t + d_s" by linarith
  have z1: "\<forall>w\<in>?M. \<exists>v. freqs1 w = Some v \<and> v \<noteq> 0" and z2: "\<forall>w\<in>?M. \<exists>v. freqs2 w = Some v \<and> v \<noteq> 0"
    using assms(3,4) by fastforce+
  let ?q = "quotient_fl ar enum s1 s2 freqs1 freqs2 d_t d_s"
  have r: "tesserae_score_fl ar enum s1 s2 freqs1 freqs2 method =
             (if ?q \<le> 0 then Inl ValueError else Inr (flog ar ?q))"
    by (rule tesserae_score_fl_eq[OF assms(1) c z1 z2 d]) (use D in linarith)
  have sgn: "0 \<le> v \<longleftrightarrow> 1 \<le> ?q"
    if "tesserae_score_fl ar enum s1 s2 freqs1 freqs2 method = Inr v" for v
  proof -
    from that r have q: "0 < ?q" and v: "v = flog ar ?q" by (auto split: if_splits)
    from assms(2) q have "flog ar ?q < 0 \<longleftrightarrow> ?q < 1" by (simp add: log_sign_ok_def)
    then show ?thesis unfolding v by linarith
  qed
  show "\<exists>d_t d_s.
               distances enum s1 s2 freqs1 freqs2 (set s1 \<inter> set s2) method = Inr (d_t, d_s) \<and>
               2 \<le> d_t + d_s \<and>
               tesserae_score_fl ar enum s1 s2 freqs1 freqs2 method =
                 (if quotient_fl ar enum s1 s2 freqs1 freqs2 d_t d_s \<le> 0 then Inl ValueError
                  else Inr (flog ar (quotient_fl ar enum s1 s2 freqs1 freqs2 d_t d_s))) \<and>
               (\<forall>v. tesserae_score_fl ar enum s1 s2 freqs1 freqs2 method = Inr v \<longrightarrow>
                  (0 \<le> v \<longleftrightarrow> 1 \<le> quotient_fl ar enum s1 s2 freqs1 freqs2 d_t d_s))"
    using d D r sgn by blast
qed

lemma quotient_fl_exact:
  assumes "set_order enum"
  shows "quotient_fl exact enum s1 s2 freqs1 freqs2 d_t d_s =
           ((\<Sum>w\<in>set s1 \<inter> set s2. 1 / the (freqs1 w)) + (\<Sum>w\<in>set s1 \<inter> set s2. 1 / the (freqs2 w)))
             / real_of_int (d_t + d_s)"
proof -
  let ?M = "set s1 \<inter> set s2"
  have e: "set (enum ?M) = ?M" "distinct (enum ?M)"
    using set_orderD[OF assms, of ?M] by simp_all
  have "sum_list (map g (enum ?M)) = sum g ?M" for g :: "'a \<Rightarrow> real"
    using e by (simp add: sum_list_distinct_conv_sum_set)
  then show ?thesis by (simp add: quotient_fl_def exact_def Let_def)
qed

theorem tesserae_score_fl_sign_witness:
  "set_order (sorted_list_of_set :: string set \<Rightarrow> string list) \<and> log_sign_ok exact \<and>
   tesserae_score_fl exact sorted_list_of_set [''a'', ''b''] [''a'', ''b''] freqs_ab freqs_ab ''min_freq''
     = Inr (ln (3 / 20)) \<and>
   quotient_fl exact sorted_list_of_set [''a'', ''b''] [''a'', ''b''] freqs_ab freqs_ab 1 1 = 3 / 20 \<and>
   ln (3 / 20) < (0::real)"
proof -
  let ?s = "[''a'', ''b'']"
  have h1: "set_order (sorted_list_of_set :: string set \<Rightarrow> string list)"
    by (rule set_order_sorted_list_of_set)
  have h3: "\<forall>w\<in>set ?s. \<exists>v. freqs_ab w = Some v \<and> 0 < v"
    by (simp add: freqs_ab_def)
  have h5: "''min_freq'' = ''min_freq'' \<or> ''min_freq'' = ''max_dist''" by simp
  have c: "2 \<le> card (set ?s \<inter> set ?s)" by simp
  have d: "distances sorted_list_of_set ?s ?s freqs_ab freqs_ab (set ?s \<inter> set ?s) ''min_freq'' = Inr (1, 1)"
    by (simp add: distances_def get_d_min_freq_ab[OF h1])
  have q: "quotient_fl exact sorted_list_of_set ?s ?s freqs_ab freqs_ab 1 1 = 3 / 20"
    unfolding quotient_fl_exact[OF h1] by (simp add: freqs_ab_def)
  from tesserae_score_fl_sign [OF h1 log_sign_ok_exact h3 h3 h5] c
  obtain d_t d_s where
    "distances sorted_list_of_set ?s ?s freqs_ab freqs_ab (set ?s \<inter> set ?s) ''min_freq'' = Inr (d_t, d_s)"
    and r: "tesserae_score_fl exact sorted_list_of_set ?s ?s freqs_ab freqs_ab ''min_freq'' =
         (if quotient_fl exact sorted_list_of_set ?s ?s freqs_ab freqs_ab d_t d_s \<le> 0 then Inl ValueError
          else Inr (flog exact (quotient_fl exact sorted_list_of_set ?s ?s freqs_ab freqs_ab d_t d_s)))"
    by blast
  with d have "d_t = 1" "d_s = 1" by simp_all
  with r q have "tesserae_score_fl exact sorted_list_of_set ?s ?s freqs_ab freqs_ab ''min_freq''
                   = Inr (ln (3 / 20))"
    by (simp add: exact_def)
  then show ?thesis using h1 log_sign_ok_exact q by simp
qed

end
